theory Spec2Isabelle
  imports Complex_Main "HOL-Library.Word" "HOL-Library.Log_Nat"
    "HOL-Library.Code_Target_Numeral"
begin

unbundle bit_operations_syntax

section \<open>Byte buffers and the runtime's read primitives\<close>

text \<open>
  A Node \<open>Buffer\<close> is a list of bytes. JavaScript \<open>number\<close>s that hold offsets, lengths
  and indices, and \<open>bigint\<close>s, are modelled as \<open>int\<close>. Every \<open>throw\<close> of the
  decoding functions below is one constructor of \<open>slab_error\<close>, named after its
  message; \<open>RangeError\<close> is the runtime's own \<open>ERR_OUT_OF_RANGE\<close>, raised by a
  \<open>Buffer\<close> read whose offset does not leave room for the value.
\<close>

type_synonym byte = "8 word"
type_synonym buffer = "byte list"

datatype slab_error =
    HeaderTooShort
  | InvalidMagic
  | ConfigTooShort
  | EngineTooShort
  | BitmapTooShort
  | AccountIndexOutOfRange
  | AccountTooShort
  | RangeError

definition bindE :: "'e + 'a \<Rightarrow> ('a \<Rightarrow> 'e + 'b) \<Rightarrow> 'e + 'b" where
  "bindE m f = case_sum Inl f m"

fun le_bytes :: "byte list \<Rightarrow> int" where
  "le_bytes [] = 0"
| "le_bytes (b # bs) = uint b + 256 * le_bytes bs"

definition readUIntLE :: "nat \<Rightarrow> buffer \<Rightarrow> int \<Rightarrow> slab_error + int" where
  "readUIntLE n buf off =
     (if off < 0 \<or> int (length buf) < off + int n then Inl RangeError
      else Inr (le_bytes (take n (drop (nat off) buf))))"

definition readUInt8 :: "buffer \<Rightarrow> int \<Rightarrow> slab_error + int" where
  "readUInt8 = readUIntLE 1"

definition readUInt16LE :: "buffer \<Rightarrow> int \<Rightarrow> slab_error + int" where
  "readUInt16LE = readUIntLE 2"

definition readUInt32LE :: "buffer \<Rightarrow> int \<Rightarrow> slab_error + int" where
  "readUInt32LE = readUIntLE 4"

definition readBigUInt64LE :: "buffer \<Rightarrow> int \<Rightarrow> slab_error + int" where
  "readBigUInt64LE = readUIntLE 8"

text \<open>The signed read interprets the same eight bytes in two's complement.\<close>

definition readBigInt64LE :: "buffer \<Rightarrow> int \<Rightarrow> slab_error + int" where
  "readBigInt64LE buf off =
     bindE (readUIntLE 8 buf off) (\<lambda>u. Inr (if u < 2 ^ 63 then u else u - 2 ^ 64))"

text \<open>\<open>Buffer.subarray(start, end)\<close> clamps to the buffer and never throws.\<close>

definition subarray :: "buffer \<Rightarrow> int \<Rightarrow> int \<Rightarrow> buffer" where
  "subarray buf s e = take (nat (e - s)) (drop (nat s) buf)"

text \<open>
  \<open>Buffer.writeBigUInt64LE\<close>, as the bytes it stores: the little-endian encoding of a
  64-bit word. It is the encoder against which the round trip of the readers is stated.
\<close>

fun le_encode :: "nat \<Rightarrow> int \<Rightarrow> byte list" where
  "le_encode 0 x = []"
| "le_encode (Suc n) x = word_of_int (x mod 256) # le_encode n (x div 256)"

definition writeBigUInt64LE :: "64 word \<Rightarrow> byte list" where
  "writeBigUInt64LE w = le_encode 8 (uint w)"

section \<open>Slab layout (module \<open>solana/slab\<close>, \<open>src/unnamed/part_002\<close>)\<close>

definition MAGIC :: int where "MAGIC = 0x504552434f4c4154"
definition HEADER_LEN :: int where "HEADER_LEN = 64"
definition CONFIG_OFFSET :: int where "CONFIG_OFFSET = HEADER_LEN"
definition RESERVED_OFF :: int where "RESERVED_OFF = 48"

type_synonym PublicKey = buffer

record SlabHeader =
  magic :: int
  version :: int
  bump :: int
  admin :: PublicKey
  nonce :: int
  lastThrUpdateSlot :: int

record MarketConfig =
  collateralMint :: PublicKey
  vaultPubkey :: PublicKey
  collateralOracle :: PublicKey
  indexOracle :: PublicKey
  maxStalenessSlots :: int
  confFilterBps :: int
  vaultAuthorityBump :: int

definition parseHeader :: "buffer \<Rightarrow> slab_error + SlabHeader" where
  "parseHeader data =
     (if int (length data) < HEADER_LEN then Inl HeaderTooShort
      else bindE (readBigUInt64LE data 0) (\<lambda>mg.
        if mg \<noteq> MAGIC then Inl InvalidMagic
        else bindE (readUInt32LE data 8) (\<lambda>ver.
             bindE (readUInt8 data 12) (\<lambda>bmp.
             let adm = subarray data 16 48 in
             bindE (readBigUInt64LE data RESERVED_OFF) (\<lambda>non.
             bindE (readBigUInt64LE data (RESERVED_OFF + 8)) (\<lambda>lst.
             Inr \<lparr> magic = mg, version = ver, bump = bmp, admin = adm,
                   nonce = non, lastThrUpdateSlot = lst \<rparr>))))))"

definition parseConfig :: "buffer \<Rightarrow> slab_error + MarketConfig" where
  "parseConfig data =
     (let minLen = CONFIG_OFFSET + 90 in
      if int (length data) < minLen then Inl ConfigTooShort
      else
        let off0 = CONFIG_OFFSET;
            cm = subarray data off0 (off0 + 32);
            off1 = off0 + 32;
            vp = subarray data off1 (off1 + 32);
            off2 = off1 + 32;
            co = subarray data off2 (off2 + 32);
            off3 = off2 + 32;
            io = subarray data off3 (off3 + 32);
            off4 = off3 + 32
        in bindE (readBigUInt64LE data off4) (\<lambda>mss.
           let off5 = off4 + 8 in
           bindE (readUInt16LE data off5) (\<lambda>cfb.
           let off6 = off5 + 2 in
           bindE (readUInt8 data off6) (\<lambda>vab.
           Inr \<lparr> collateralMint = cm, vaultPubkey = vp, collateralOracle = co,
                 indexOracle = io, maxStalenessSlots = mss, confFilterBps = cfb,
                 vaultAuthorityBump = vab \<rparr>))))"

subsection \<open>RiskEngine layout constants\<close>

definition ENGINE_OFF :: int where "ENGINE_OFF = 208"
definition ENGINE_VAULT_OFF :: int where "ENGINE_VAULT_OFF = 0"
definition ENGINE_INSURANCE_OFF :: int where "ENGINE_INSURANCE_OFF = 16"
definition ENGINE_CURRENT_SLOT_OFF :: int where "ENGINE_CURRENT_SLOT_OFF = 192"
definition ENGINE_FUNDING_INDEX_OFF :: int where "ENGINE_FUNDING_INDEX_OFF = 200"
definition ENGINE_LAST_FUNDING_SLOT_OFF :: int where "ENGINE_LAST_FUNDING_SLOT_OFF = 216"
definition ENGINE_LOSS_ACCUM_OFF :: int where "ENGINE_LOSS_ACCUM_OFF = 224"
definition ENGINE_RISK_REDUCTION_ONLY_OFF :: int where "ENGINE_RISK_REDUCTION_ONLY_OFF = 240"
definition ENGINE_RISK_REDUCTION_WITHDRAWN_OFF :: int where
  "ENGINE_RISK_REDUCTION_WITHDRAWN_OFF = 248"
definition ENGINE_WARMUP_PAUSED_OFF :: int where "ENGINE_WARMUP_PAUSED_OFF = 264"
definition ENGINE_WARMUP_PAUSE_SLOT_OFF :: int where "ENGINE_WARMUP_PAUSE_SLOT_OFF = 272"
definition ENGINE_LAST_CRANK_SLOT_OFF :: int where "ENGINE_LAST_CRANK_SLOT_OFF = 280"
definition ENGINE_MAX_CRANK_STALENESS_OFF :: int where "ENGINE_MAX_CRANK_STALENESS_OFF = 288"
definition ENGINE_TOTAL_OI_OFF :: int where "ENGINE_TOTAL_OI_OFF = 296"
definition ENGINE_WARMED_POS_OFF :: int where "ENGINE_WARMED_POS_OFF = 312"
definition ENGINE_WARMED_NEG_OFF :: int where "ENGINE_WARMED_NEG_OFF = 328"
definition ENGINE_WARMUP_INSURANCE_OFF :: int where "ENGINE_WARMUP_INSURANCE_OFF = 344"
definition ENGINE_BITMAP_OFF :: int where "ENGINE_BITMAP_OFF = 70032"
definition ENGINE_NUM_USED_OFF :: int where "ENGINE_NUM_USED_OFF = 70544"
definition ENGINE_NEXT_ACCOUNT_ID_OFF :: int where "ENGINE_NEXT_ACCOUNT_ID_OFF = 70552"
definition ENGINE_ACCOUNTS_OFF :: int where "ENGINE_ACCOUNTS_OFF = 78768"

definition BITMAP_WORDS :: int where "BITMAP_WORDS = 64"
definition MAX_ACCOUNTS :: int where "MAX_ACCOUNTS = 4096"
definition ACCOUNT_SIZE :: int where "ACCOUNT_SIZE = 272"

subsection \<open>Account layout constants\<close>

definition ACCT_KIND_OFF :: int where "ACCT_KIND_OFF = 0"
definition ACCT_ACCOUNT_ID_OFF :: int where "ACCT_ACCOUNT_ID_OFF = 8"
definition ACCT_CAPITAL_OFF :: int where "ACCT_CAPITAL_OFF = 16"
definition ACCT_PNL_OFF :: int where "ACCT_PNL_OFF = 32"
definition ACCT_RESERVED_PNL_OFF :: int where "ACCT_RESERVED_PNL_OFF = 48"
definition ACCT_WARMUP_STARTED_OFF :: int where "ACCT_WARMUP_STARTED_OFF = 64"
definition ACCT_WARMUP_SLOPE_OFF :: int where "ACCT_WARMUP_SLOPE_OFF = 80"
definition ACCT_POSITION_SIZE_OFF :: int where "ACCT_POSITION_SIZE_OFF = 96"
definition ACCT_ENTRY_PRICE_OFF :: int where "ACCT_ENTRY_PRICE_OFF = 112"
definition ACCT_FUNDING_INDEX_OFF :: int where "ACCT_FUNDING_INDEX_OFF = 128"
definition ACCT_MATCHER_PROGRAM_OFF :: int where "ACCT_MATCHER_PROGRAM_OFF = 144"
definition ACCT_MATCHER_CONTEXT_OFF :: int where "ACCT_MATCHER_CONTEXT_OFF = 176"
definition ACCT_OWNER_OFF :: int where "ACCT_OWNER_OFF = 208"
definition ACCT_FEE_CREDITS_OFF :: int where "ACCT_FEE_CREDITS_OFF = 240"
definition ACCT_LAST_FEE_SLOT_OFF :: int where "ACCT_LAST_FEE_SLOT_OFF = 256"

lemmas layout_defs =
  MAGIC_def HEADER_LEN_def CONFIG_OFFSET_def RESERVED_OFF_def
  ENGINE_OFF_def ENGINE_VAULT_OFF_def ENGINE_INSURANCE_OFF_def ENGINE_CURRENT_SLOT_OFF_def
  ENGINE_FUNDING_INDEX_OFF_def ENGINE_LAST_FUNDING_SLOT_OFF_def ENGINE_LOSS_ACCUM_OFF_def
  ENGINE_RISK_REDUCTION_ONLY_OFF_def ENGINE_RISK_REDUCTION_WITHDRAWN_OFF_def
  ENGINE_WARMUP_PAUSED_OFF_def ENGINE_WARMUP_PAUSE_SLOT_OFF_def ENGINE_LAST_CRANK_SLOT_OFF_def
  ENGINE_MAX_CRANK_STALENESS_OFF_def ENGINE_TOTAL_OI_OFF_def ENGINE_WARMED_POS_OFF_def
  ENGINE_WARMED_NEG_OFF_def ENGINE_WARMUP_INSURANCE_OFF_def ENGINE_BITMAP_OFF_def
  ENGINE_NUM_USED_OFF_def ENGINE_NEXT_ACCOUNT_ID_OFF_def ENGINE_ACCOUNTS_OFF_def
  BITMAP_WORDS_def MAX_ACCOUNTS_def ACCOUNT_SIZE_def
  ACCT_KIND_OFF_def ACCT_ACCOUNT_ID_OFF_def ACCT_CAPITAL_OFF_def ACCT_PNL_OFF_def
  ACCT_RESERVED_PNL_OFF_def ACCT_WARMUP_STARTED_OFF_def ACCT_WARMUP_SLOPE_OFF_def
  ACCT_POSITION_SIZE_OFF_def ACCT_ENTRY_PRICE_OFF_def ACCT_FUNDING_INDEX_OFF_def
  ACCT_MATCHER_PROGRAM_OFF_def ACCT_MATCHER_CONTEXT_OFF_def ACCT_OWNER_OFF_def
  ACCT_FEE_CREDITS_OFF_def ACCT_LAST_FEE_SLOT_OFF_def

subsection \<open>Decoded structures\<close>

record InsuranceFund =
  balance :: int
  feeRevenue :: int

record EngineState =
  vault :: int
  insuranceFund :: InsuranceFund
  currentSlot :: int
  fundingIndexQpbE6 :: int
  lastFundingSlot :: int
  lossAccum :: int
  riskReductionOnly :: bool
  riskReductionModeWithdrawn :: int
  warmupPaused :: bool
  warmupPauseSlot :: int
  lastCrankSlot :: int
  maxCrankStalenessSlots :: int
  totalOpenInterest :: int
  warmedPosTotal :: int
  warmedNegTotal :: int
  warmupInsuranceReserved :: int
  numUsedAccounts :: int
  nextAccountId :: int

datatype AccountKind = User | LP

record Account =
  kind :: AccountKind
  accountId :: int
  capital :: int
  pnl :: int
  reservedPnl :: int
  warmupStartedAtSlot :: int
  warmupSlopePerStep :: int
  positionSize :: int
  entryPrice :: int
  fundingIndex :: int
  matcherProgram :: PublicKey
  matcherContext :: PublicKey
  owner :: PublicKey
  feeCredits :: int
  lastFeeSlot :: int

subsection \<open>128-bit helpers\<close>

text \<open>\<open>(hi << 64n) | lo\<close> on unbounded two's-complement integers.\<close>

definition readI128LE :: "buffer \<Rightarrow> int \<Rightarrow> slab_error + int" where
  "readI128LE buf off =
     bindE (readBigUInt64LE buf off) (\<lambda>lo.
     bindE (readBigInt64LE buf (off + 8)) (\<lambda>hi.
     Inr (push_bit 64 hi OR lo)))"

definition readU128LE :: "buffer \<Rightarrow> int \<Rightarrow> slab_error + int" where
  "readU128LE buf off =
     bindE (readBigUInt64LE buf off) (\<lambda>lo.
     bindE (readBigUInt64LE buf (off + 8)) (\<lambda>hi.
     Inr (push_bit 64 hi OR lo)))"

subsection \<open>Parsing functions\<close>

definition parseEngine :: "buffer \<Rightarrow> slab_error + EngineState" where
  "parseEngine data =
     (let base = ENGINE_OFF in
      if int (length data) < base + ENGINE_ACCOUNTS_OFF then Inl EngineTooShort
      else
        bindE (readU128LE data (base + ENGINE_VAULT_OFF)) (\<lambda>v.
        bindE (readU128LE data (base + ENGINE_INSURANCE_OFF)) (\<lambda>ib.
        bindE (readU128LE data (base + ENGINE_INSURANCE_OFF + 16)) (\<lambda>ifr.
        bindE (readBigUInt64LE data (base + ENGINE_CURRENT_SLOT_OFF)) (\<lambda>cs.
        bindE (readI128LE data (base + ENGINE_FUNDING_INDEX_OFF)) (\<lambda>fi.
        bindE (readBigUInt64LE data (base + ENGINE_LAST_FUNDING_SLOT_OFF)) (\<lambda>lfs.
        bindE (readU128LE data (base + ENGINE_LOSS_ACCUM_OFF)) (\<lambda>la.
        bindE (readUInt8 data (base + ENGINE_RISK_REDUCTION_ONLY_OFF)) (\<lambda>rro.
        bindE (readU128LE data (base + ENGINE_RISK_REDUCTION_WITHDRAWN_OFF)) (\<lambda>rrw.
        bindE (readUInt8 data (base + ENGINE_WARMUP_PAUSED_OFF)) (\<lambda>wp.
        bindE (readBigUInt64LE data (base + ENGINE_WARMUP_PAUSE_SLOT_OFF)) (\<lambda>wps.
        bindE (readBigUInt64LE data (base + ENGINE_LAST_CRANK_SLOT_OFF)) (\<lambda>lcs.
        bindE (readBigUInt64LE data (base + ENGINE_MAX_CRANK_STALENESS_OFF)) (\<lambda>mcs.
        bindE (readU128LE data (base + ENGINE_TOTAL_OI_OFF)) (\<lambda>oi.
        bindE (readU128LE data (base + ENGINE_WARMED_POS_OFF)) (\<lambda>wpt.
        bindE (readU128LE data (base + ENGINE_WARMED_NEG_OFF)) (\<lambda>wnt.
        bindE (readU128LE data (base + ENGINE_WARMUP_INSURANCE_OFF)) (\<lambda>wir.
        bindE (readUInt16LE data (base + ENGINE_NUM_USED_OFF)) (\<lambda>nu.
        bindE (readBigUInt64LE data (base + ENGINE_NEXT_ACCOUNT_ID_OFF)) (\<lambda>nid.
        Inr \<lparr> vault = v,
              insuranceFund = \<lparr> balance = ib, feeRevenue = ifr \<rparr>,
              currentSlot = cs, fundingIndexQpbE6 = fi, lastFundingSlot = lfs,
              lossAccum = la, riskReductionOnly = (rro \<noteq> 0),
              riskReductionModeWithdrawn = rrw, warmupPaused = (wp \<noteq> 0),
              warmupPauseSlot = wps, lastCrankSlot = lcs, maxCrankStalenessSlots = mcs,
              totalOpenInterest = oi, warmedPosTotal = wpt, warmedNegTotal = wnt,
              warmupInsuranceReserved = wir, numUsedAccounts = nu,
              nextAccountId = nid \<rparr>))))))))))))))))))))"

text \<open>
  The two loops of \<open>parseUsedIndices\<close>: the inner one tests
  \<open>(bits >> BigInt(bit)) & 1n\<close> for \<open>bit = 0 .. 63\<close> and pushes \<open>word * 64 + bit\<close>;
  the outer one reads the words \<open>0 .. 63\<close> and skips a word equal to \<open>0n\<close>.
\<close>

function scanBits :: "int \<Rightarrow> int \<Rightarrow> int \<Rightarrow> int list \<Rightarrow> int list" where
  "scanBits bits word b used =
     (if b < 64
      then scanBits bits word (b + 1)
             (if drop_bit (nat b) bits AND 1 \<noteq> 0 then used @ [word * 64 + b] else used)
      else used)"
  by pat_completeness auto
termination
  by (relation "measure (\<lambda>(bits, word, b, used). nat (64 - b))") auto

declare scanBits.simps [simp del]

function scanWords :: "buffer \<Rightarrow> int \<Rightarrow> int \<Rightarrow> int list \<Rightarrow> slab_error + int list" where
  "scanWords data base word used =
     (if word < BITMAP_WORDS
      then (case readBigUInt64LE data (base + word * 8) of
              Inl e \<Rightarrow> Inl e
            | Inr bits \<Rightarrow>
                if bits = 0 then scanWords data base (word + 1) used
                else scanWords data base (word + 1) (scanBits bits word 0 used))
      else Inr used)"
  by pat_completeness auto
termination
  by (relation "measure (\<lambda>(data, base, word, used). nat (BITMAP_WORDS - word))")
     (auto simp: BITMAP_WORDS_def)

declare scanWords.simps [simp del]

definition parseUsedIndices :: "buffer \<Rightarrow> slab_error + int list" where
  "parseUsedIndices data =
     (let base = ENGINE_OFF + ENGINE_BITMAP_OFF in
      if int (length data) < base + BITMAP_WORDS * 8 then Inl BitmapTooShort
      else scanWords data base 0 [])"

definition isAccountUsed :: "buffer \<Rightarrow> int \<Rightarrow> slab_error + bool" where
  "isAccountUsed data idx =
     (if idx < 0 \<or> idx \<ge> MAX_ACCOUNTS then Inr False
      else
        let base = ENGINE_OFF + ENGINE_BITMAP_OFF;
            word = idx div 64;
            b = idx mod 64
        in bindE (readBigUInt64LE data (base + word * 8)) (\<lambda>bits.
           Inr (drop_bit (nat b) bits AND 1 \<noteq> 0)))"

definition maxAccountIndex :: "int \<Rightarrow> int" where
  "maxAccountIndex dataLen =
     (let accountsEnd = dataLen - ENGINE_OFF - ENGINE_ACCOUNTS_OFF in
      if accountsEnd \<le> 0 then 0 else accountsEnd div ACCOUNT_SIZE)"

definition parseAccount :: "buffer \<Rightarrow> int \<Rightarrow> slab_error + Account" where
  "parseAccount data idx =
     (let maxIdx = maxAccountIndex (int (length data)) in
      if idx < 0 \<or> idx \<ge> maxIdx then Inl AccountIndexOutOfRange
      else
        let base = ENGINE_OFF + ENGINE_ACCOUNTS_OFF + idx * ACCOUNT_SIZE in
        if int (length data) < base + ACCOUNT_SIZE then Inl AccountTooShort
        else
          bindE (readUInt8 data (base + ACCT_KIND_OFF)) (\<lambda>kindByte.
          let k = (if kindByte = 1 then LP else User) in
          bindE (readBigUInt64LE data (base + ACCT_ACCOUNT_ID_OFF)) (\<lambda>aid.
          bindE (readU128LE data (base + ACCT_CAPITAL_OFF)) (\<lambda>cap.
          bindE (readI128LE data (base + ACCT_PNL_OFF)) (\<lambda>pl.
          bindE (readU128LE data (base + ACCT_RESERVED_PNL_OFF)) (\<lambda>rp.
          bindE (readBigUInt64LE data (base + ACCT_WARMUP_STARTED_OFF)) (\<lambda>ws.
          bindE (readU128LE data (base + ACCT_WARMUP_SLOPE_OFF)) (\<lambda>wsl.
          bindE (readI128LE data (base + ACCT_POSITION_SIZE_OFF)) (\<lambda>ps.
          bindE (readBigUInt64LE data (base + ACCT_ENTRY_PRICE_OFF)) (\<lambda>ep.
          bindE (readI128LE data (base + ACCT_FUNDING_INDEX_OFF)) (\<lambda>fi.
          let mp = subarray data (base + ACCT_MATCHER_PROGRAM_OFF)
                     (base + ACCT_MATCHER_PROGRAM_OFF + 32);
              mc = subarray data (base + ACCT_MATCHER_CONTEXT_OFF)
                     (base + ACCT_MATCHER_CONTEXT_OFF + 32);
              ow = subarray data (base + ACCT_OWNER_OFF) (base + ACCT_OWNER_OFF + 32)
          in
          bindE (readI128LE data (base + ACCT_FEE_CREDITS_OFF)) (\<lambda>fc.
          bindE (readBigUInt64LE data (base + ACCT_LAST_FEE_SLOT_OFF)) (\<lambda>lf.
          Inr \<lparr> kind = k, accountId = aid, capital = cap, pnl = pl, reservedPnl = rp,
                warmupStartedAtSlot = ws, warmupSlopePerStep = wsl, positionSize = ps,
                entryPrice = ep, fundingIndex = fi, matcherProgram = mp,
                matcherContext = mc, owner = ow, feeCredits = fc,
                lastFeeSlot = lf \<rparr>)))))))))))))"

section \<open>Best-price scanner (command \<open>best-price\<close>, \<open>src/unnamed/part_005\<close>)\<close>

definition BPS_DENOM :: int where "BPS_DENOM = 10000"
definition CTX_BASE :: int where "CTX_BASE = 64"
definition PERCMATC_MAGIC :: int where "PERCMATC_MAGIC = 0x504552434d415443"

text \<open>
  The parameter block of a matcher context. Its fields are unsigned in the layout
  (\<open>u8\<close>, \<open>u32\<close>, \<open>u128\<close>) and are only ever built from unsigned reads or from the
  non-negative literals of the fallback, so they are natural numbers. Field names are
  global in a theory: where two interfaces of the source share a field name, the later
  record prefixes it (\<open>mkind\<close> for \<open>MatcherParams.kind\<close>, \<open>qFeeBps\<close> and \<open>qSpreadBps\<close>
  for the quote, \<open>lq...\<close> for \<open>LpQuote\<close>).
\<close>

record MatcherParams =
  mkind :: nat
  feeBps :: nat
  spreadBps :: nat
  maxTotalBps :: nat
  impactKBps :: nat
  liquidityE6 :: nat

text \<open>
  \<open>fetchMatcherParams\<close>, with the network read abstracted: the argument is the data of the
  account that \<open>getAccountInfo\<close> returned, \<open>None\<close> when there is no such account. The
  \<open>try\<close>/\<open>catch\<close> turns every exception into \<open>null\<close>.
\<close>

definition fetchMatcherParams :: "buffer option \<Rightarrow> MatcherParams option" where
  "fetchMatcherParams info =
     (case info of
        None \<Rightarrow> None
      | Some data \<Rightarrow>
          if int (length data) < CTX_BASE + 80 then None
          else
            (case
               bindE (readBigUInt64LE data CTX_BASE) (\<lambda>mg.
                 if mg \<noteq> PERCMATC_MAGIC then Inr None
                 else
                   bindE (readUInt8 data (CTX_BASE + 12)) (\<lambda>k.
                   bindE (readUInt32LE data (CTX_BASE + 48)) (\<lambda>fee.
                   bindE (readUInt32LE data (CTX_BASE + 52)) (\<lambda>spread.
                   bindE (readUInt32LE data (CTX_BASE + 56)) (\<lambda>maxTotal.
                   bindE (readUInt32LE data (CTX_BASE + 60)) (\<lambda>impactK.
                   bindE (readBigUInt64LE data (CTX_BASE + 64)) (\<lambda>loLiq.
                   bindE (readBigUInt64LE data (CTX_BASE + 72)) (\<lambda>hiLiq.
                   Inr (Some \<lparr> mkind = nat k, feeBps = nat fee, spreadBps = nat spread,
                               maxTotalBps = nat maxTotal, impactKBps = nat impactK,
                               liquidityE6 = nat (loLiq + push_bit 64 hiLiq) \<rparr>)))))))))
             of Inl e \<Rightarrow> None | Inr r \<Rightarrow> r))"

text \<open>Decimal rendering of a number inside a template string.\<close>

definition digit_char :: "nat \<Rightarrow> char" where
  "digit_char n = ''0123456789'' ! (n mod 10)"

fun show_nat :: "nat \<Rightarrow> string" where
  "show_nat n = (if n < 10 then [digit_char n] else show_nat (n div 10) @ [digit_char (n mod 10)])"

declare show_nat.simps [simp del]

definition kindLabel :: "nat \<Rightarrow> string" where
  "kindLabel k =
     (if k = 0 then ''passive''
      else if k = 1 then ''vAMM''
      else if k = 2 then ''credibility''
      else ''custom('' @ show_nat k @ '')'')"

text \<open>\<open>/\<close> on \<open>bigint\<close> truncates towards zero; every divisor below is non-zero.\<close>

definition bigint_div :: "int \<Rightarrow> int \<Rightarrow> int" where
  "bigint_div a b =
     (if (a < 0) = (b < 0) then \<bar>a\<bar> div \<bar>b\<bar> else - (\<bar>a\<bar> div \<bar>b\<bar>))"

text \<open>
  \<open>Number(x)\<close> for a \<open>bigint\<close>: the nearest double, ties to even. Such a double is an
  integer or an infinity.
\<close>

datatype jsnumber = Num int | PosInfinity | NegInfinity

definition round_to_double :: "nat \<Rightarrow> nat" where
  "round_to_double m =
     (if m < 2 ^ 53 then m
      else
        let e = floorlog 2 m - 53;
            q = m div 2 ^ e;
            r = m mod 2 ^ e;
            q' = (if 2 * r > 2 ^ e \<or> (2 * r = 2 ^ e \<and> odd q) then q + 1 else q)
        in q' * 2 ^ e)"

definition toNumber :: "int \<Rightarrow> jsnumber" where
  "toNumber x =
     (let m = round_to_double (nat \<bar>x\<bar>) in
      if m \<ge> 2 ^ 1024 then (if x < 0 then NegInfinity else PosInfinity)
      else Num (if x < 0 then - int m else int m))"

text \<open>
  The \<open>bigint\<close> locals of \<open>computeQuote\<close> once the ceiling has been applied
  (lines up to the clamp), and then the quote built from them.
\<close>

record EdgeVars =
  vFeeBps :: int
  vSpreadBps :: int
  vImpactBps :: int
  vTotalEdgeBps :: int

definition computeEdge :: "MatcherParams \<Rightarrow> int option \<Rightarrow> EdgeVars" where
  "computeEdge params tradeSizeE6 =
     (let fee = int (feeBps params);
          spread0 = int (spreadBps params);
          impact =
            (case tradeSizeE6 of
               None \<Rightarrow> 0
             | Some sz \<Rightarrow>
                 if impactKBps params > 0 \<and> liquidityE6 params > 0
                 then
                   let absNotional = (if sz < 0 then - sz else sz)
                   in bigint_div (absNotional * int (impactKBps params))
                        (int (liquidityE6 params))
                 else 0);
          spread = spread0 + impact;
          total0 = fee + spread;
          total =
            (if maxTotalBps params > 0 \<and> total0 > int (maxTotalBps params)
             then int (maxTotalBps params) else total0)
      in \<lparr> vFeeBps = fee, vSpreadBps = spread, vImpactBps = impact,
           vTotalEdgeBps = total \<rparr>)"

record Quote =
  bid :: int
  ask :: int
  totalEdgeBps :: jsnumber
  qFeeBps :: jsnumber
  qSpreadBps :: jsnumber
  impactBps :: jsnumber

definition computeQuote :: "int \<Rightarrow> MatcherParams \<Rightarrow> int option \<Rightarrow> Quote" where
  "computeQuote oraclePrice params tradeSizeE6 =
     (let v = computeEdge params tradeSizeE6;
          b = bigint_div (oraclePrice * (BPS_DENOM - vTotalEdgeBps v)) BPS_DENOM;
          askNumer = oraclePrice * (BPS_DENOM + vTotalEdgeBps v);
          a = bigint_div (askNumer + BPS_DENOM - 1) BPS_DENOM
      in \<lparr> bid = b, ask = a,
           totalEdgeBps = toNumber (vTotalEdgeBps v),
           qFeeBps = toNumber (vFeeBps v),
           qSpreadBps = toNumber (vSpreadBps v),
           impactBps = toNumber (vImpactBps v) \<rparr>)"

subsection \<open>Building the quote list\<close>

definition fallbackParams :: MatcherParams where
  "fallbackParams =
     \<lparr> mkind = 0, feeBps = 0, spreadBps = 50, maxTotalBps = 0, impactKBps = 0,
       liquidityE6 = 0 \<rparr>"

definition fallbackLabel :: string where
  "fallbackLabel = ''unknown (fallback 50bps)''"

text \<open>
  One entry of \<open>lpAccounts\<close>. \<open>PublicKey.default\<close> is thirty-two zero bytes. The quote
  keeps the matcher program as the key itself, not as its base-58 text.
\<close>

record LpEntry =
  lpIdx :: int
  lpAccount :: Account

definition defaultPublicKey :: PublicKey where
  "defaultPublicKey = replicate 32 0"

record LpQuote =
  lpIndex :: int
  lqMatcherProgram :: PublicKey
  matcherKind :: string
  lqBid :: int
  lqAsk :: int
  lqTotalEdgeBps :: jsnumber
  lqFeeBps :: jsnumber
  lqSpreadBps :: jsnumber
  lqImpactBps :: jsnumber
  lqCapital :: int
  lqPosition :: int

text \<open>The entry of \<open>ctxFetches\<close> for one LP; \<open>conn\<close> stands for \<open>getAccountInfo\<close>.\<close>

definition ctxFetch :: "(PublicKey \<Rightarrow> buffer option) \<Rightarrow> LpEntry \<Rightarrow> MatcherParams option" where
  "ctxFetch conn lp =
     (if matcherContext (lpAccount lp) \<noteq> defaultPublicKey
      then fetchMatcherParams (conn (matcherContext (lpAccount lp)))
      else None)"

text \<open>The body of the loop that builds \<open>quotes\<close>.\<close>

definition buildQuote :: "int \<Rightarrow> int option \<Rightarrow> LpEntry \<Rightarrow> MatcherParams option \<Rightarrow> LpQuote" where
  "buildQuote oraclePrice tradeSizeE6 lp params =
     (let (quote, mk) =
            (case params of
               Some p \<Rightarrow> (computeQuote oraclePrice p tradeSizeE6, kindLabel (mkind p))
             | None \<Rightarrow> (computeQuote oraclePrice fallbackParams None, fallbackLabel))
      in \<lparr> lpIndex = lpIdx lp,
           lqMatcherProgram = matcherProgram (lpAccount lp),
           matcherKind = mk,
           lqBid = bid quote, lqAsk = ask quote,
           lqTotalEdgeBps = totalEdgeBps quote, lqFeeBps = qFeeBps quote,
           lqSpreadBps = qSpreadBps quote, lqImpactBps = impactBps quote,
           lqCapital = capital (lpAccount lp),
           lqPosition = positionSize (lpAccount lp) \<rparr>)"

definition buildQuotes ::
  "(PublicKey \<Rightarrow> buffer option) \<Rightarrow> int \<Rightarrow> int option \<Rightarrow> LpEntry list \<Rightarrow> LpQuote list" where
  "buildQuotes conn oraclePrice tradeSizeE6 lpAccounts =
     (let matcherParams = map (ctxFetch conn) lpAccounts
      in map (\<lambda>(lp, params). buildQuote oraclePrice tradeSizeE6 lp params)
           (zip lpAccounts matcherParams))"

section \<open>Credibility-weighted spread\<close>

text \<open>
  The pricing function of the credibility matcher is the program in
  \<open>matcher/credibility/src/lib.rs\<close>, of which only the \<open>README.md\<close> is at hand; the
  dashboard's \<open>Risk\<close> screen shows a floating-point sketch of it and is not the engine.
  The three definitions below follow the spec and the README:
  \<open>spread = min_spread_bps + imbalance_k_bps * |inventory| / liquidity
            - insurance_weight_bps * min(insurance / OI, 1.0)\<close>, clamped to
  \<open>[1, max_spread_bps]\<close>, in integer arithmetic.
\<close>

text \<open>
  Modelled from the spec: the parameter record of the credibility role (minimum and
  maximum spread, imbalance coefficient, insurance weight, liquidity scale), all
  unsigned.
\<close>

record CredibilityParams =
  min_spread_bps :: nat
  max_spread_bps :: nat
  imbalance_k_bps :: nat
  insurance_weight_bps :: nat
  liquidity_scale :: nat




section \<open>Notions used to state the properties\<close>

text \<open>The unsigned and the signed value of the eight bytes at an offset.\<close>

definition u64_at :: "buffer \<Rightarrow> int \<Rightarrow> int" where
  "u64_at buf off = le_bytes (take 8 (drop (nat off) buf))"

definition i64_at :: "buffer \<Rightarrow> int \<Rightarrow> int" where
  "i64_at buf off = (let u = u64_at buf off in if u < 2 ^ 63 then u else u - 2 ^ 64)"

text \<open>Word \<open>w\<close> of the used-slot bitmap.\<close>

definition bitmapWord :: "buffer \<Rightarrow> int \<Rightarrow> int" where
  "bitmapWord data w = u64_at data (ENGINE_OFF + ENGINE_BITMAP_OFF + w * 8)"

text \<open>
  A matcher context that cannot be read: the account is missing, its data is shorter than
  the context, or the eight bytes at the context base are not the matcher magic.
\<close>

definition ctx_unreadable :: "buffer option \<Rightarrow> bool" where
  "ctx_unreadable info =
     (case info of
        None \<Rightarrow> True
      | Some data \<Rightarrow>
          int (length data) < CTX_BASE + 80 \<or> u64_at data CTX_BASE \<noteq> PERCMATC_MAGIC)"

section \<open>Basic facts about the read primitives\<close>

lemma bindE_Inr [simp]: "bindE (Inr v) f = f v"
  by (simp add: bindE_def)

lemma bindE_Inl [simp]: "bindE (Inl e) f = Inl e"
  by (simp add: bindE_def)

lemma length_le_encode: "length (le_encode n x) = n"
  by (induction n arbitrary: x) auto

lemma le_bytes_le_encode: "le_bytes (le_encode n x) = x mod 256 ^ n"
proof (induction n arbitrary: x)
  case 0 show ?case by simp
next
  case (Suc n)
  have "uint (word_of_int (x mod 256) :: byte) = x mod 256"
    by (simp add: uint_word_of_int take_bit_eq_mod)
  then show ?case using Suc
    by (simp add: zmod_zmult2_eq)
qed

lemma le_bytes_nonneg: "0 \<le> le_bytes bs"
  by (induction bs) auto

lemma le_bytes_bound: "le_bytes bs < 256 ^ length bs"
proof (induction bs)
  case Nil show ?case by simp
next
  case (Cons b bs)
  have "uint b < 256" using uint_bounded [of b] by simp
  then show ?case using Cons by simp
qed

lemma shift_or_add:
  fixes hi lo :: int
  assumes "0 \<le> lo" "lo < 2 ^ 64"
  shows "push_bit 64 hi OR lo = lo + 2 ^ 64 * hi"
proof -
  have t: "take_bit 64 lo = lo" using assms by (simp add: take_bit_int_eq_self)
  then have "push_bit 64 hi OR lo = concat_bit 64 lo hi"
    by (simp add: concat_bit_def ac_simps)
  then show ?thesis
    using t by (simp add: concat_bit_eq push_bit_eq_mult)
qed

lemma le_bytes_write64: "le_bytes (writeBigUInt64LE w) = uint w"
proof -
  have "uint w < 2 ^ 64" using uint_bounded [of w] by simp
  then show ?thesis
    by (simp add: writeBigUInt64LE_def le_bytes_le_encode)
qed

lemma sint_64: "sint (w :: 64 word) = (if uint w < 2 ^ 63 then uint w else uint w - 2 ^ 64)"
proof -
  have b: "0 \<le> uint w" "uint w < 2 ^ 64" using uint_bounded [of w] by simp_all
  have "sint w = (uint w + 2 ^ 63) mod 2 ^ 64 - 2 ^ 63"
    by (simp add: sint_uint signed_take_bit_eq_take_bit_shift take_bit_eq_mod)
  also have "\<dots> = (if uint w < 2 ^ 63 then uint w else uint w - 2 ^ 64)"
  proof (cases "uint w < 2 ^ 63")
    case True
    then have "(uint w + 2 ^ 63) mod 2 ^ 64 = uint w + 2 ^ 63"
      using b by (intro mod_pos_pos_trivial) simp_all
    then show ?thesis using True by simp
  next
    case False
    have "(uint w + 2 ^ 63) mod 2 ^ 64 = (uint w + 2 ^ 63 - 2 ^ 64) mod 2 ^ 64"
      using minus_mod_self2 [of "uint w + 2 ^ 63" "2 ^ 64"] by simp
    also have "\<dots> = uint w + 2 ^ 63 - 2 ^ 64"
      using b False by (intro mod_pos_pos_trivial) simp_all
    finally show ?thesis using False by simp
  qed
  finally show ?thesis .
qed

lemma readUIntLE_ok:
  "0 \<le> off \<Longrightarrow> off + int n \<le> int (length buf) \<Longrightarrow>
   readUIntLE n buf off = Inr (le_bytes (take n (drop (nat off) buf)))"
  by (simp add: readUIntLE_def)

lemma u64_at_bounds: "0 \<le> u64_at buf off" "u64_at buf off < 2 ^ 64"
proof -
  show "0 \<le> u64_at buf off" by (simp add: u64_at_def le_bytes_nonneg)
  have "le_bytes (take 8 (drop (nat off) buf)) < 256 ^ length (take 8 (drop (nat off) buf))"
    by (rule le_bytes_bound)
  also have "\<dots> \<le> (256 :: int) ^ 8"
    by (rule power_increasing) simp_all
  finally show "u64_at buf off < 2 ^ 64" by (simp add: u64_at_def)
qed

lemma readBigUInt64LE_ok:
  "0 \<le> off \<Longrightarrow> off + 8 \<le> int (length buf) \<Longrightarrow> readBigUInt64LE buf off = Inr (u64_at buf off)"
  by (simp add: readBigUInt64LE_def readUIntLE_ok u64_at_def)

lemma readBigInt64LE_ok:
  "0 \<le> off \<Longrightarrow> off + 8 \<le> int (length buf) \<Longrightarrow> readBigInt64LE buf off = Inr (i64_at buf off)"
  by (simp add: readBigInt64LE_def readUIntLE_ok u64_at_def i64_at_def Let_def)

lemma readU128LE_ok:
  assumes "0 \<le> off" "off + 16 \<le> int (length buf)"
  shows "readU128LE buf off = Inr (u64_at buf off + 2 ^ 64 * u64_at buf (off + 8))"
  using assms u64_at_bounds [of buf off]
  by (simp add: readU128LE_def readBigUInt64LE_ok shift_or_add)

lemma readI128LE_ok:
  assumes "0 \<le> off" "off + 16 \<le> int (length buf)"
  shows "readI128LE buf off = Inr (u64_at buf off + 2 ^ 64 * i64_at buf (off + 8))"
  using assms u64_at_bounds [of buf off]
  by (simp add: readI128LE_def readBigUInt64LE_ok readBigInt64LE_ok shift_or_add)

lemma readUInt8_ok:
  "0 \<le> off \<Longrightarrow> off + 1 \<le> int (length buf) \<Longrightarrow>
   readUInt8 buf off = Inr (le_bytes (take 1 (drop (nat off) buf)))"
  by (simp add: readUInt8_def readUIntLE_ok)

lemma readUInt16LE_ok:
  "0 \<le> off \<Longrightarrow> off + 2 \<le> int (length buf) \<Longrightarrow>
   readUInt16LE buf off = Inr (le_bytes (take 2 (drop (nat off) buf)))"
  by (simp add: readUInt16LE_def readUIntLE_ok)

lemma readUInt32LE_ok:
  "0 \<le> off \<Longrightarrow> off + 4 \<le> int (length buf) \<Longrightarrow>
   readUInt32LE buf off = Inr (le_bytes (take 4 (drop (nat off) buf)))"
  by (simp add: readUInt32LE_def readUIntLE_ok)

lemma field16_split:
  assumes "0 \<le> off" "take 16 (drop (nat off) buf) = writeBigUInt64LE lo @ writeBigUInt64LE hi"
  shows "off + 16 \<le> int (length buf)" "u64_at buf off = uint lo" "u64_at buf (off + 8) = uint hi"
proof -
  let ?xs = "drop (nat off) buf"
  have len: "length (writeBigUInt64LE lo) = 8" "length (writeBigUInt64LE hi) = 8"
    by (simp_all add: writeBigUInt64LE_def length_le_encode)
  have "length (take 16 ?xs) = 16" using assms(2) len by simp
  then have l16: "16 \<le> length ?xs" by simp
  then show "off + 16 \<le> int (length buf)" using assms(1) by simp
  have "take 8 ?xs = take 8 (take 16 ?xs)" by simp
  also have "\<dots> = writeBigUInt64LE lo" using assms(2) len by simp
  finally show "u64_at buf off = uint lo" by (simp add: u64_at_def le_bytes_write64)
  have "drop (nat (off + 8)) buf = drop 8 ?xs" using assms(1) by (simp add: nat_add_distrib add.commute)
  then have "take 8 (drop (nat (off + 8)) buf) = drop 8 (take 16 ?xs)"
    by (simp add: drop_take)
  also have "\<dots> = writeBigUInt64LE hi" using assms(2) len by simp
  finally show "u64_at buf (off + 8) = uint hi" by (simp add: u64_at_def le_bytes_write64)
qed

lemma i64_at_sint: "u64_at buf off = uint (w :: 64 word) \<Longrightarrow> i64_at buf off = sint w"
  by (simp add: i64_at_def sint_64 Let_def)

lemma parseEngine_balance:
  assumes "ENGINE_OFF + ENGINE_ACCOUNTS_OFF \<le> int (length data)"
  shows "\<exists>e. parseEngine data = Inr e \<and>
             balance (insuranceFund e) =
               u64_at data (ENGINE_OFF + ENGINE_INSURANCE_OFF)
               + 2 ^ 64 * u64_at data (ENGINE_OFF + ENGINE_INSURANCE_OFF + 8)"
  using assms
  by (simp add: parseEngine_def layout_defs readU128LE_ok readI128LE_ok readBigUInt64LE_ok
      readUInt8_ok readUInt16LE_ok)

section \<open>The two-word composition of 128-bit fields\<close>

lemma le_encode_8:
  "le_encode 8 x =
     [word_of_int (x mod 256), word_of_int (x div 256 mod 256),
      word_of_int (x div 256 div 256 mod 256),
      word_of_int (x div 256 div 256 div 256 mod 256),
      word_of_int (x div 256 div 256 div 256 div 256 mod 256),
      word_of_int (x div 256 div 256 div 256 div 256 div 256 mod 256),
      word_of_int (x div 256 div 256 div 256 div 256 div 256 div 256 mod 256),
      word_of_int (x div 256 div 256 div 256 div 256 div 256 div 256 div 256 mod 256)]"
proof -
  have "(8 :: nat) = Suc (Suc (Suc (Suc (Suc (Suc (Suc (Suc 0)))))))" by simp
  then show ?thesis by (simp only: le_encode.simps)
qed

lemma writeBigUInt64LE_5: "writeBigUInt64LE 5 = [5, 0, 0, 0, 0, 0, 0, 0]"
  by (simp add: writeBigUInt64LE_def le_encode_8)

lemma writeBigUInt64LE_64: "writeBigUInt64LE 64 = [64, 0, 0, 0, 0, 0, 0, 0]"
  by (simp add: writeBigUInt64LE_def le_encode_8)

lemma writeBigUInt64LE_ones:
  "writeBigUInt64LE 18446744073709551615 = [255, 255, 255, 255, 255, 255, 255, 255]"
  by (simp add: writeBigUInt64LE_def le_encode_8)

text \<open>
  C1. A 128-bit field whose sixteen bytes are two little-endian 64-bit words, low word
  first, decodes to \<open>lo + 2^64 * hi\<close>, with the high word read unsigned by
  \<open>readU128LE\<close> and in two's complement by \<open>readI128LE\<close>, for all word values. On a
  buffer long enough for \<open>parseEngine\<close>, the insurance balance is the value so encoded
  at its offset; a balance field that encodes \<open>2^70 + 5\<close> decodes to \<open>2^70 + 5\<close>.
\<close>

theorem u128_i128_two_word_roundtrip:
  "(0 \<le> off \<and> take 16 (drop (nat off) buf) = writeBigUInt64LE lo @ writeBigUInt64LE hi
      \<longrightarrow> readU128LE buf off = Inr (uint lo + 2 ^ 64 * uint hi)
          \<and> readI128LE buf off = Inr (uint lo + 2 ^ 64 * sint hi))
   \<and> (ENGINE_OFF + ENGINE_ACCOUNTS_OFF \<le> int (length data)
        \<and> take 16 (drop (nat (ENGINE_OFF + ENGINE_INSURANCE_OFF)) data)
            = writeBigUInt64LE lo' @ writeBigUInt64LE hi'
      \<longrightarrow> (\<exists>e. parseEngine data = Inr e
               \<and> balance (insuranceFund e) = uint lo' + 2 ^ 64 * uint hi'))
   \<and> (ENGINE_OFF + ENGINE_ACCOUNTS_OFF \<le> int (length data)
        \<and> take 16 (drop (nat (ENGINE_OFF + ENGINE_INSURANCE_OFF)) data)
            = writeBigUInt64LE 5 @ writeBigUInt64LE 64
      \<longrightarrow> (\<exists>e. parseEngine data = Inr e \<and> balance (insuranceFund e) = 2 ^ 70 + 5))"
proof (intro conjI impI)
  assume a: "0 \<le> off \<and> take 16 (drop (nat off) buf) = writeBigUInt64LE lo @ writeBigUInt64LE hi"
  note s = field16_split [OF conjunct1 [OF a] conjunct2 [OF a]]
  show "readU128LE buf off = Inr (uint lo + 2 ^ 64 * uint hi)"
    using a s by (simp add: readU128LE_ok)
  show "readI128LE buf off = Inr (uint lo + 2 ^ 64 * sint hi)"
    using a s by (simp add: readI128LE_ok i64_at_sint)
next
  have field: "\<exists>e. parseEngine data = Inr e
                 \<and> balance (insuranceFund e) = uint l + 2 ^ 64 * uint h"
    if "ENGINE_OFF + ENGINE_ACCOUNTS_OFF \<le> int (length data)
        \<and> take 16 (drop (nat (ENGINE_OFF + ENGINE_INSURANCE_OFF)) data)
            = writeBigUInt64LE l @ writeBigUInt64LE h" for l h
  proof -
    have "0 \<le> ENGINE_OFF + ENGINE_INSURANCE_OFF" by (simp add: layout_defs)
    from field16_split(2,3) [OF this conjunct2 [OF that]] parseEngine_balance [OF conjunct1 [OF that]]
    show ?thesis by (simp add: add.assoc)
  qed
  {
    assume "ENGINE_OFF + ENGINE_ACCOUNTS_OFF \<le> int (length data)
        \<and> take 16 (drop (nat (ENGINE_OFF + ENGINE_INSURANCE_OFF)) data)
            = writeBigUInt64LE lo' @ writeBigUInt64LE hi'"
    then show "\<exists>e. parseEngine data = Inr e
               \<and> balance (insuranceFund e) = uint lo' + 2 ^ 64 * uint hi'"
      by (rule field)
  }
  {
    assume "ENGINE_OFF + ENGINE_ACCOUNTS_OFF \<le> int (length data)
        \<and> take 16 (drop (nat (ENGINE_OFF + ENGINE_INSURANCE_OFF)) data)
            = writeBigUInt64LE 5 @ writeBigUInt64LE 64"
    from field [OF this]
    show "\<exists>e. parseEngine data = Inr e \<and> balance (insuranceFund e) = 2 ^ 70 + 5"
      by simp
  }
qed

theorem u128_i128_two_word_roundtrip_witness:
  "readU128LE ([170, 187, 204] @ [5, 0, 0, 0, 0, 0, 0, 0]
                @ [255, 255, 255, 255, 255, 255, 255, 255]) 3
     = Inr (5 + 2 ^ 64 * (2 ^ 64 - 1))
   \<and> readI128LE ([170, 187, 204] @ [5, 0, 0, 0, 0, 0, 0, 0]
                @ [255, 255, 255, 255, 255, 255, 255, 255]) 3
     = Inr (5 - 2 ^ 64)
   \<and> (\<exists>e. parseEngine (replicate 224 0 @ [5, 0, 0, 0, 0, 0, 0, 0] @ [64, 0, 0, 0, 0, 0, 0, 0]
                          @ replicate 78736 0) = Inr e
          \<and> balance (insuranceFund e) = 2 ^ 70 + 5)"
  using u128_i128_two_word_roundtrip
          [of 3 "[170, 187, 204] @ [5, 0, 0, 0, 0, 0, 0, 0]
                  @ [255, 255, 255, 255, 255, 255, 255, 255]" 5 18446744073709551615
              "replicate 224 0 @ [5, 0, 0, 0, 0, 0, 0, 0] @ [64, 0, 0, 0, 0, 0, 0, 0]
                 @ replicate 78736 0" 5 64]
  by (simp add: writeBigUInt64LE_5 writeBigUInt64LE_64 writeBigUInt64LE_ones layout_defs)

section \<open>Header decoding\<close>

lemma le_bytes_replicate_0 [simp]: "le_bytes (replicate n 0) = 0"
  by (induction n) auto

text \<open>
  C4. \<open>parseHeader\<close> fails with the too-short error on every buffer of fewer than 64
  bytes, whatever the bytes are; on a longer buffer it fails with the invalid-magic error
  whenever the first eight bytes are not the magic constant, whatever the other fields
  hold; otherwise it succeeds and returns the header, the version being the four bytes at
  offset 8 as they are.
\<close>

theorem parseHeader_error_semantics:
  "(int (length data) < HEADER_LEN \<longrightarrow> parseHeader data = Inl HeaderTooShort)
   \<and> (HEADER_LEN \<le> int (length data) \<and> u64_at data 0 \<noteq> MAGIC
        \<longrightarrow> parseHeader data = Inl InvalidMagic)
   \<and> (HEADER_LEN \<le> int (length data) \<and> u64_at data 0 = MAGIC
        \<longrightarrow> parseHeader data =
              Inr \<lparr> magic = MAGIC,
                    version = le_bytes (take 4 (drop 8 data)),
                    bump = le_bytes (take 1 (drop 12 data)),
                    admin = take 32 (drop 16 data),
                    nonce = u64_at data 48,
                    lastThrUpdateSlot = u64_at data 56 \<rparr>)"
proof (intro conjI impI)
  assume "int (length data) < HEADER_LEN"
  then show "parseHeader data = Inl HeaderTooShort"
    by (simp add: parseHeader_def)
next
  assume a: "HEADER_LEN \<le> int (length data) \<and> u64_at data 0 \<noteq> MAGIC"
  then have "readBigUInt64LE data 0 = Inr (u64_at data 0)"
    by (simp add: readBigUInt64LE_ok HEADER_LEN_def)
  then show "parseHeader data = Inl InvalidMagic"
    using a by (simp add: parseHeader_def)
next
  assume a: "HEADER_LEN \<le> int (length data) \<and> u64_at data 0 = MAGIC"
  then have len: "64 \<le> int (length data)" by (simp add: HEADER_LEN_def)
  have r: "readBigUInt64LE data 0 = Inr MAGIC"
          "readUInt32LE data 8 = Inr (le_bytes (take 4 (drop 8 data)))"
          "readUInt8 data 12 = Inr (le_bytes (take 1 (drop 12 data)))"
          "readBigUInt64LE data 48 = Inr (u64_at data 48)"
          "readBigUInt64LE data 56 = Inr (u64_at data 56)"
    using len a by (simp_all add: readBigUInt64LE_ok readUInt32LE_ok readUInt8_ok)
  show "parseHeader data =
              Inr \<lparr> magic = MAGIC,
                    version = le_bytes (take 4 (drop 8 data)),
                    bump = le_bytes (take 1 (drop 12 data)),
                    admin = take 32 (drop 16 data),
                    nonce = u64_at data 48,
                    lastThrUpdateSlot = u64_at data 56 \<rparr>"
    using len r by (simp add: parseHeader_def HEADER_LEN_def RESERVED_OFF_def subarray_def)
qed

theorem parseHeader_error_semantics_witness:
  "parseHeader [] = Inl HeaderTooShort
   \<and> parseHeader (replicate 64 0) = Inl InvalidMagic
   \<and> parseHeader ([84, 65, 76, 79, 67, 82, 69, 80] @ [7, 0, 0, 0] @ replicate 52 0) =
       Inr \<lparr> magic = MAGIC, version = 7, bump = 0, admin = replicate 32 0, nonce = 0,
             lastThrUpdateSlot = 0 \<rparr>"
  using parseHeader_error_semantics [of "[]"]
        parseHeader_error_semantics [of "replicate 64 0"]
        parseHeader_error_semantics
          [of "[84, 65, 76, 79, 67, 82, 69, 80] @ [7, 0, 0, 0] @ replicate 52 0"]
  by (simp add: HEADER_LEN_def MAGIC_def u64_at_def)

section \<open>Account decoding\<close>

lemma maxAccountIndex_eq:
  "maxAccountIndex n = (if n \<le> 78976 then 0 else (n - 78976) div 272)"
  by (simp add: maxAccountIndex_def layout_defs Let_def)

lemma in_range_fits:
  assumes "0 \<le> idx" "idx < maxAccountIndex n"
  shows "78976 + (idx + 1) * 272 \<le> n"
proof -
  have gt: "\<not> n \<le> 78976" using assms by (auto simp: maxAccountIndex_eq split: if_splits)
  then have "idx + 1 \<le> (n - 78976) div 272" using assms by (simp add: maxAccountIndex_eq)
  then have "(idx + 1) * 272 \<le> (n - 78976) div 272 * 272" by simp
  also have "\<dots> \<le> n - 78976"
    using div_mult_mod_eq [of "n - 78976" 272] pos_mod_sign [of 272 "n - 78976"] by linarith
  finally show ?thesis by simp
qed

lemma parseAccount_ok:
  assumes "0 \<le> idx" "idx < maxAccountIndex (int (length data))"
    and "79248 + idx * 272 \<le> int (length data)"
  shows "\<exists>a. parseAccount data idx = Inr a"
  using assms
  by (simp add: parseAccount_def layout_defs readU128LE_ok readI128LE_ok readBigUInt64LE_ok
      readUInt8_ok Let_def)

text \<open>
  C5. \<open>maxAccountIndex\<close> is 0 for a buffer no longer than the fixed prefix and
  otherwise floor-divides the remaining bytes by the record size. \<open>parseAccount\<close>
  rejects every negative index and every index at or above \<open>maxAccountIndex\<close> of the
  buffer's length with the index-out-of-range error, accepts every other index, and a
  successful call has its whole record inside the buffer: no read is out of range.
\<close>

theorem parseAccount_index_validation:
  "maxAccountIndex n =
     (if n \<le> ENGINE_OFF + ENGINE_ACCOUNTS_OFF then 0
      else (n - (ENGINE_OFF + ENGINE_ACCOUNTS_OFF)) div ACCOUNT_SIZE)
   \<and> (idx < 0 \<or> idx \<ge> maxAccountIndex (int (length data))
        \<longrightarrow> parseAccount data idx = Inl AccountIndexOutOfRange)
   \<and> (0 \<le> idx \<and> idx < maxAccountIndex (int (length data))
        \<longrightarrow> (\<exists>a. parseAccount data idx = Inr a))
   \<and> (\<forall>a. parseAccount data idx = Inr a
        \<longrightarrow> 0 \<le> idx
            \<and> ENGINE_OFF + ENGINE_ACCOUNTS_OFF + (idx + 1) * ACCOUNT_SIZE \<le> int (length data))
   \<and> parseAccount data idx \<noteq> Inl RangeError"
proof -
  let ?len = "int (length data)"
  have c1: "maxAccountIndex n =
     (if n \<le> ENGINE_OFF + ENGINE_ACCOUNTS_OFF then 0
      else (n - (ENGINE_OFF + ENGINE_ACCOUNTS_OFF)) div ACCOUNT_SIZE)"
    by (simp add: maxAccountIndex_eq layout_defs)
  have c2: "parseAccount data idx = Inl AccountIndexOutOfRange"
    if "idx < 0 \<or> idx \<ge> maxAccountIndex ?len"
    using that by (auto simp: parseAccount_def Let_def)
  have c3: "\<exists>a. parseAccount data idx = Inr a"
    if r: "0 \<le> idx \<and> idx < maxAccountIndex ?len"
  proof -
    have fits: "78976 + (idx + 1) * 272 \<le> ?len"
      using in_range_fits [of idx ?len] r by simp
    then have "79248 + idx * 272 \<le> ?len" by (simp add: algebra_simps)
    with r show ?thesis by (intro parseAccount_ok) simp_all
  qed
  have c4: "0 \<le> idx \<and> ENGINE_OFF + ENGINE_ACCOUNTS_OFF + (idx + 1) * ACCOUNT_SIZE \<le> ?len"
    if "parseAccount data idx = Inr a" for a
  proof -
    have r: "0 \<le> idx \<and> idx < maxAccountIndex ?len"
      using that c2 by (cases "idx < 0 \<or> idx \<ge> maxAccountIndex ?len") auto
    then show ?thesis using in_range_fits [of idx ?len] by (simp add: layout_defs)
  qed
  have c5: "parseAccount data idx \<noteq> Inl RangeError"
  proof (cases "idx < 0 \<or> idx \<ge> maxAccountIndex ?len")
    case True
    then show ?thesis using c2 by simp
  next
    case False
    then show ?thesis using c3 by auto
  qed
  show ?thesis using c1 c2 c3 c4 c5 by blast
qed

theorem parseAccount_index_validation_witness:
  "maxAccountIndex 79300 = 1
   \<and> parseAccount (replicate 79300 0) 1 = Inl AccountIndexOutOfRange
   \<and> parseAccount (replicate 79300 0) (- 1) = Inl AccountIndexOutOfRange
   \<and> (\<exists>a. parseAccount (replicate 79300 0) 0 = Inr a)
   \<and> ENGINE_OFF + ENGINE_ACCOUNTS_OFF + (0 + 1) * ACCOUNT_SIZE
        \<le> int (length (replicate 79300 (0 :: byte)))"
  using parseAccount_index_validation [of 79300 1 "replicate 79300 0"]
        parseAccount_index_validation [of 79300 "- 1" "replicate 79300 0"]
        parseAccount_index_validation [of 79300 0 "replicate 79300 0"]
  by (simp add: layout_defs)

section \<open>Failure semantics of the decoder\<close>

text \<open>
  C8. \<open>isAccountUsed\<close> has no length check: on an empty buffer the in-range index 0
  ends in the runtime's range error of the unchecked read, where \<open>parseUsedIndices\<close>
  reports a too-short bitmap; on a buffer that holds only the first bitmap word it
  answers for index 63 and ends in the range error for index 64. \<open>parseConfig\<close> checks
  for 154 bytes but reads up to byte 203, so a buffer of 154 to 202 bytes passes the
  check and ends in the same range error.
\<close>

theorem decoder_unguarded_reads:
  "isAccountUsed [] 0 = Inl RangeError
   \<and> parseUsedIndices [] = Inl BitmapTooShort
   \<and> isAccountUsed (replicate 70250 0) 64 = Inl RangeError
   \<and> isAccountUsed (replicate 70250 0) 63 = Inr False
   \<and> parseUsedIndices (replicate 70250 0) = Inl BitmapTooShort
   \<and> parseConfig (replicate 153 0) = Inl ConfigTooShort
   \<and> parseConfig (replicate 154 0) = Inl RangeError
   \<and> parseConfig (replicate 202 0) = Inl RangeError"
  by (simp add: isAccountUsed_def parseUsedIndices_def parseConfig_def readBigUInt64LE_def
      readUInt16LE_def readUInt8_def readUIntLE_def layout_defs Let_def)

section \<open>The used-slot bitmap\<close>

lemma bit_test_iff: "drop_bit n (k :: int) AND 1 \<noteq> 0 \<longleftrightarrow> bit k n"
  by (simp add: and_one_eq bit_iff_odd_drop_bit odd_iff_mod_2_eq_one)

lemma scanBits_set:
  "0 \<le> b \<Longrightarrow>
   set (scanBits bits w b used) =
     set used \<union> {w * 64 + j | j. b \<le> j \<and> j < 64 \<and> bit bits (nat j)}"
proof (induction bits w b used rule: scanBits.induct)
  case (1 bits w b used)
  show ?case
  proof (cases "b < 64")
    case False
    then show ?thesis by (subst scanBits.simps) auto
  next
    case True
    let ?used' = "if drop_bit (nat b) bits AND 1 \<noteq> 0 then used @ [w * 64 + b] else used"
    have step: "scanBits bits w b used = scanBits bits w (b + 1) ?used'"
      using True by (subst scanBits.simps) simp
    have ih: "set (scanBits bits w (b + 1) ?used') =
                set ?used' \<union> {w * 64 + j | j. b + 1 \<le> j \<and> j < 64 \<and> bit bits (nat j)}"
      using "1.IH" [OF True] "1.prems" by simp
    have split: "{w * 64 + j | j. b \<le> j \<and> j < 64 \<and> bit bits (nat j)} =
                 (if bit bits (nat b) then {w * 64 + b} else {})
                 \<union> {w * 64 + j | j. b + 1 \<le> j \<and> j < 64 \<and> bit bits (nat j)}"
      (is "?L = ?R")
    proof
      show "?L \<subseteq> ?R"
      proof
        fix x assume "x \<in> ?L"
        then obtain j where j: "x = w * 64 + j" "b \<le> j" "j < 64" "bit bits (nat j)" by blast
        show "x \<in> ?R"
        proof (cases "j = b")
          case True then show ?thesis using j by simp
        next
          case False
          then have "b + 1 \<le> j" using j by simp
          then show ?thesis using j by blast
        qed
      qed
      show "?R \<subseteq> ?L" using True by (auto split: if_splits)
    qed
    show ?thesis
      unfolding step ih split by (auto simp: bit_test_iff)
  qed
qed

lemma scanBits_sorted:
  "0 \<le> b \<Longrightarrow> sorted_wrt (<) used \<Longrightarrow> \<forall>x\<in>set used. x < w * 64 + b \<Longrightarrow>
   sorted_wrt (<) (scanBits bits w b used)"
proof (induction bits w b used rule: scanBits.induct)
  case (1 bits w b used)
  show ?case
  proof (cases "b < 64")
    case False
    then show ?thesis using "1.prems" by (subst scanBits.simps) simp
  next
    case True
    let ?used' = "if drop_bit (nat b) bits AND 1 \<noteq> 0 then used @ [w * 64 + b] else used"
    have step: "scanBits bits w b used = scanBits bits w (b + 1) ?used'"
      using True by (subst scanBits.simps) simp
    have s: "sorted_wrt (<) ?used'"
      using "1.prems" by (auto simp: sorted_wrt_append)
    have u: "\<forall>x\<in>set ?used'. x < w * 64 + (b + 1)"
      using "1.prems" by (auto split: if_splits) 
    show ?thesis
      unfolding step using "1.IH" [OF True _ s u] "1.prems" by simp
  qed
qed

lemma scanWords_spec:
  "0 \<le> base \<Longrightarrow> base + 512 \<le> int (length data) \<Longrightarrow> 0 \<le> w \<Longrightarrow>
    \<exists>used'. scanWords data base w used = Inr used'
      \<and> set used' = set used \<union>
            {w' * 64 + j | w' j. w \<le> w' \<and> w' < 64 \<and> 0 \<le> j \<and> j < 64
                                 \<and> bit (u64_at data (base + w' * 8)) (nat j)}
      \<and> (sorted_wrt (<) used \<and> (\<forall>x\<in>set used. x < w * 64) \<longrightarrow> sorted_wrt (<) used')"
proof (induction data base w used rule: scanWords.induct)
  case (1 data base w used)
  note b = "1.prems"(1,2)
  let ?S = "\<lambda>w. {w' * 64 + j | w' j. w \<le> w' \<and> w' < 64 \<and> 0 \<le> j \<and> j < 64
                                 \<and> bit (u64_at data (base + w' * 8)) (nat j)}"
  show ?case
  proof (cases "w < 64")
    case False
    then have r: "scanWords data base w used = Inr used"
      by (subst scanWords.simps) (simp add: BITMAP_WORDS_def)
    have e: "?S w = {}" using False by auto
    show ?thesis unfolding e r by simp
  next
    case True
    let ?bits = "u64_at data (base + w * 8)"
    have rd: "readBigUInt64LE data (base + w * 8) = Inr ?bits"
      using True "1.prems" b by (intro readBigUInt64LE_ok) simp_all
    have Ssplit: "?S w = {w * 64 + j | j. 0 \<le> j \<and> j < 64 \<and> bit ?bits (nat j)} \<union> ?S (w + 1)"
      (is "_ = ?A \<union> _")
    proof
      show "?S w \<subseteq> ?A \<union> ?S (w + 1)"
      proof
        fix x assume "x \<in> ?S w"
        then obtain w' j where x: "x = w' * 64 + j" "w \<le> w'" "w' < 64" "0 \<le> j" "j < 64"
          "bit (u64_at data (base + w' * 8)) (nat j)" by blast
        show "x \<in> ?A \<union> ?S (w + 1)"
        proof (cases "w' = w")
          case True then show ?thesis using x by blast
        next
          case False
          then have "w + 1 \<le> w'" using x by simp
          then show ?thesis using x by blast
        qed
      qed
      show "?A \<union> ?S (w + 1) \<subseteq> ?S w" using True by fastforce
    qed
    show ?thesis
    proof (cases "?bits = 0")
      case z: True
      have step: "scanWords data base w used = scanWords data base (w + 1) used"
        using True rd z by (subst scanWords.simps) (simp add: BITMAP_WORDS_def)
      have "w < BITMAP_WORDS" using True by (simp add: BITMAP_WORDS_def)
      from "1.IH"(1) [OF this rd z] "1.prems" b
      obtain used' where u: "scanWords data base (w + 1) used = Inr used'"
        "set used' = set used \<union> ?S (w + 1)"
        "sorted_wrt (<) used \<and> (\<forall>x\<in>set used. x < (w + 1) * 64) \<longrightarrow> sorted_wrt (<) used'"
        by auto
      have Ae: "?A = {}" using z by simp
      have "set used' = set used \<union> ?S w" unfolding u(2) Ssplit Ae by simp
      moreover have "sorted_wrt (<) used \<and> (\<forall>x\<in>set used. x < w * 64) \<longrightarrow> sorted_wrt (<) used'"
        using u(3) by fastforce
      ultimately show ?thesis using step u(1) by simp
    next
      case nz: False
      let ?u1 = "scanBits ?bits w 0 used"
      have step: "scanWords data base w used = scanWords data base (w + 1) ?u1"
        using True rd nz by (subst scanWords.simps) (simp add: BITMAP_WORDS_def)
      have "w < BITMAP_WORDS" using True by (simp add: BITMAP_WORDS_def)
      from "1.IH"(2) [OF this rd nz] "1.prems" b
      obtain used' where u: "scanWords data base (w + 1) ?u1 = Inr used'"
        "set used' = set ?u1 \<union> ?S (w + 1)"
        "sorted_wrt (<) ?u1 \<and> (\<forall>x\<in>set ?u1. x < (w + 1) * 64) \<longrightarrow> sorted_wrt (<) used'"
        by auto
      have s1: "set ?u1 = set used \<union> ?A"
        using scanBits_set [of 0 ?bits w used] by simp
      have "set used' = set used \<union> ?S w" unfolding u(2) s1 Ssplit by (simp add: Un_assoc)
      moreover have "sorted_wrt (<) used'"
        if h: "sorted_wrt (<) used \<and> (\<forall>x\<in>set used. x < w * 64)"
      proof -
        have "sorted_wrt (<) ?u1"
          using h by (intro scanBits_sorted) simp_all
        moreover have "\<forall>x\<in>set ?u1. x < (w + 1) * 64"
          using h s1 by (auto simp: algebra_simps)
        ultimately show ?thesis using u(3) by simp
      qed
      ultimately show ?thesis using step u(1) by simp
    qed
  qed
qed

lemma slot_decomp:
  fixes i w b :: int
  assumes "0 \<le> b" "b < 64"
  shows "i = 64 * w + b \<longleftrightarrow> w = i div 64 \<and> b = i mod 64"
proof
  assume i: "i = 64 * w + b"
  have "(64 * w + b) div 64 = w" using assms by simp
  moreover have "(64 * w + b) mod 64 = b" using assms by simp
  ultimately show "w = i div 64 \<and> b = i mod 64" using i by simp
next
  assume "w = i div 64 \<and> b = i mod 64"
  then show "i = 64 * w + b" by simp
qed

lemma isAccountUsed_ok:
  assumes len: "ENGINE_OFF + ENGINE_BITMAP_OFF + BITMAP_WORDS * 8 \<le> int (length data)"
  shows "isAccountUsed data i =
           Inr (0 \<le> i \<and> i < 4096 \<and> bit (bitmapWord data (i div 64)) (nat (i mod 64)))"
proof (cases "i < 0 \<or> i \<ge> 4096")
  case True
  then show ?thesis by (auto simp: isAccountUsed_def MAX_ACCOUNTS_def)
next
  case False
  then have w: "0 \<le> i div 64" "i div 64 < 64" by presburger+
  have "readBigUInt64LE data (70240 + i div 64 * 8) = Inr (u64_at data (70240 + i div 64 * 8))"
    using w len by (intro readBigUInt64LE_ok) (simp_all add: layout_defs)
  then show ?thesis
    using False
    by (simp add: isAccountUsed_def bitmapWord_def layout_defs Let_def bit_test_iff)
qed

text \<open>
  C6. On a buffer that holds the whole bitmap, \<open>parseUsedIndices\<close> returns a strictly
  ascending list whose elements are exactly the slot indices \<open>64 * w + b\<close> of the set bits
  \<open>b\<close> of the words \<open>w\<close>, all 64 words counted, and for every index in \<open>[0, 4096)\<close>
  \<open>isAccountUsed\<close> answers true exactly when the index is in that list.
\<close>

theorem bitmap_consistency:
  assumes len: "ENGINE_OFF + ENGINE_BITMAP_OFF + BITMAP_WORDS * 8 \<le> int (length data)"
  shows "\<exists>used. parseUsedIndices data = Inr used
           \<and> sorted_wrt (<) used
           \<and> set used = {64 * w + b | w b. 0 \<le> w \<and> w < 64 \<and> 0 \<le> b \<and> b < 64
                                         \<and> bit (bitmapWord data w) (nat b)}
           \<and> (\<forall>i. 0 \<le> i \<and> i < 4096 \<longrightarrow>
                  (isAccountUsed data i = Inr True \<longleftrightarrow> i \<in> set used)
                  \<and> (isAccountUsed data i = Inr False \<longleftrightarrow> i \<notin> set used))"
proof -
  let ?T = "{64 * w + b | w b. 0 \<le> w \<and> w < 64 \<and> 0 \<le> b \<and> b < 64
                                         \<and> bit (bitmapWord data w) (nat b)}"
  have l: "70240 + 512 \<le> int (length data)" using len by (simp add: layout_defs)
  from scanWords_spec [of 70240 data 0 "[]"] l
  obtain used where u: "scanWords data 70240 0 [] = Inr used"
    "set used = {w' * 64 + j | w' j. 0 \<le> w' \<and> w' < 64 \<and> 0 \<le> j \<and> j < 64
                                 \<and> bit (u64_at data (70240 + w' * 8)) (nat j)}"
    "sorted_wrt (<) used"
    by auto
  have p: "parseUsedIndices data = Inr used"
    using l u(1) by (simp add: parseUsedIndices_def layout_defs)
  have s: "set used = ?T"
    unfolding u(2) bitmapWord_def by (simp add: layout_defs mult.commute)
  have m: "i \<in> set used \<longleftrightarrow> bit (bitmapWord data (i div 64)) (nat (i mod 64))"
    if "0 \<le> i \<and> i < 4096" for i
  proof
    assume "i \<in> set used"
    then obtain w b where wb: "i = 64 * w + b" "0 \<le> b" "b < 64" "bit (bitmapWord data w) (nat b)"
      unfolding s by blast
    then show "bit (bitmapWord data (i div 64)) (nat (i mod 64))"
      using slot_decomp [of b i w] by simp
  next
    assume b: "bit (bitmapWord data (i div 64)) (nat (i mod 64))"
    have "i = 64 * (i div 64) + i mod 64" by simp
    moreover have "0 \<le> i div 64" "i div 64 < 64" "0 \<le> i mod 64" "i mod 64 < 64"
      using that by presburger+
    ultimately show "i \<in> set used" unfolding s using b by blast
  qed
  have "(isAccountUsed data i = Inr True \<longleftrightarrow> i \<in> set used)
        \<and> (isAccountUsed data i = Inr False \<longleftrightarrow> i \<notin> set used)"
    if "0 \<le> i \<and> i < 4096" for i
    using that m [OF that] by (simp add: isAccountUsed_ok [OF len])
  then show ?thesis using p u(3) s by blast
qed


theorem bitmap_consistency_witness:
  "\<exists>used. parseUsedIndices (replicate 70240 0 @ [33, 0, 0, 0, 0, 0, 0, 0, 128] @ replicate 503 0)
             = Inr used
     \<and> sorted_wrt (<) used \<and> 71 \<in> set used \<and> 70 \<notin> set used
     \<and> isAccountUsed (replicate 70240 0 @ [33, 0, 0, 0, 0, 0, 0, 0, 128] @ replicate 503 0) 71
          = Inr True
     \<and> isAccountUsed (replicate 70240 0 @ [33, 0, 0, 0, 0, 0, 0, 0, 128] @ replicate 503 0) 70
          = Inr False"
proof -
  let ?d = "replicate 70240 0 @ [33, 0, 0, 0, 0, 0, 0, 0, 128] @ replicate 503 (0 :: byte)"
  have len: "ENGINE_OFF + ENGINE_BITMAP_OFF + BITMAP_WORDS * 8 \<le> int (length ?d)"
    by (simp add: layout_defs)
  have rd: "readBigUInt64LE ?d 70248 = Inr 128"
    by (simp add: readBigUInt64LE_def readUIntLE_def)
  have e1: "isAccountUsed ?d 71 = Inr True"
    using rd by (simp add: isAccountUsed_def layout_defs Let_def drop_bit_eq_div)
  have e2: "isAccountUsed ?d 70 = Inr False"
    using rd by (simp add: isAccountUsed_def layout_defs Let_def drop_bit_eq_div)
  from bitmap_consistency [OF len] obtain used where
    u: "parseUsedIndices ?d = Inr used" "sorted_wrt (<) used"
       "\<forall>i. 0 \<le> i \<and> i < 4096 \<longrightarrow>
            (isAccountUsed ?d i = Inr True \<longleftrightarrow> i \<in> set used)
            \<and> (isAccountUsed ?d i = Inr False \<longleftrightarrow> i \<notin> set used)"
    by (elim exE conjE)
  from u(3) [rule_format, of 71] u(3) [rule_format, of 70] e1 e2
  have "71 \<in> set used" "70 \<notin> set used" by simp_all
  then show ?thesis using u(1,2) e1 e2 by simp
qed

section \<open>The quote\<close>

lemma bigint_div_nonneg: "0 \<le> a \<Longrightarrow> 0 < b \<Longrightarrow> bigint_div a b = a div b"
  by (simp add: bigint_div_def)

lemma bigint_div_neg: "a < 0 \<Longrightarrow> 0 < b \<Longrightarrow> bigint_div a b = - ((- a) div b)"
  by (simp add: bigint_div_def)

lemma floor_real_div: "\<lfloor>real_of_int a / real_of_int b\<rfloor> = a div b"
  by (rule floor_divide_of_int_eq)

lemma ceiling_real_div: "\<lceil>real_of_int a / real_of_int b\<rceil> = - ((- a) div b)"
proof -
  have "\<lceil>real_of_int a / real_of_int b\<rceil> = - \<lfloor>real_of_int (- a) / real_of_int b\<rfloor>"
    by (simp add: ceiling_def)
  then show ?thesis by (simp only: floor_real_div)
qed

lemma ceil_div_10000: "(a + 9999) div 10000 = - ((- a) div (10000 :: int))"
proof -
  have "a = 10000 * (a div 10000) + a mod 10000" by simp
  show ?thesis
  proof (cases "a mod 10000 = 0")
    case True
    then have "10000 dvd a" by auto
    then obtain k where k: "a = 10000 * k" by (rule dvdE)
    show ?thesis unfolding k by simp
  next
    case False
    have r: "0 \<le> a mod 10000" "a mod 10000 < 10000" by simp_all
    have "(- a) div 10000 = - (a div 10000) - 1"
      using False by (simp add: zdiv_zminus1_eq_if)
    moreover have "(a + 9999) div 10000 = a div 10000 + 1"
    proof -
      have "a + 9999 = 10000 * (a div 10000 + 1) + (a mod 10000 - 1)"
        by (simp add: algebra_simps)
      moreover have "0 \<le> a mod 10000 - 1" "a mod 10000 - 1 < 10000"
        using False r by linarith+
      ultimately show ?thesis
        by (metis div_pos_pos_trivial add.right_neutral div_mult_self2 zero_neq_numeral add.commute)
    qed
    ultimately show ?thesis by simp
  qed
qed

lemma toNumber_small:
  assumes "\<bar>x\<bar> < 2 ^ 53"
  shows "toNumber x = Num x"
proof -
  have lt: "nat \<bar>x\<bar> < 2 ^ 53" using assms by (simp add: nat_less_iff)
  then have m: "round_to_double (nat \<bar>x\<bar>) = nat \<bar>x\<bar>"
    by (simp add: round_to_double_def)
  have "(2 :: nat) ^ 53 \<le> 2 ^ 1024" by (rule power_increasing) simp_all
  then have "\<not> (2 :: nat) ^ 1024 \<le> nat \<bar>x\<bar>" using lt by linarith
  then show ?thesis unfolding toNumber_def m Let_def by (simp only: if_False) auto
qed

lemma computeEdge_total:
  "vTotalEdgeBps (computeEdge params sz) =
     (let s = vFeeBps (computeEdge params sz) + vSpreadBps (computeEdge params sz)
      in if maxTotalBps params \<noteq> 0 \<and> int (maxTotalBps params) < s
         then int (maxTotalBps params) else s)"
  by (simp add: computeEdge_def Let_def)

lemma computeEdge_impact:
  "vImpactBps (computeEdge params sz) =
     (case sz of
        None \<Rightarrow> 0
      | Some n \<Rightarrow>
          if impactKBps params \<noteq> 0 \<and> liquidityE6 params \<noteq> 0
          then (\<bar>n\<bar> * int (impactKBps params)) div int (liquidityE6 params)
          else 0)"
proof (cases sz)
  case None
  then show ?thesis by (simp add: computeEdge_def Let_def)
next
  case (Some n)
  have "(if n < 0 then - n else n) = \<bar>n\<bar>" by simp
  then show ?thesis
    using Some by (simp add: computeEdge_def Let_def bigint_div_nonneg)
qed

lemma computeEdge_impact_nonneg: "0 \<le> vImpactBps (computeEdge params sz)"
  by (simp add: computeEdge_impact pos_imp_zdiv_nonneg_iff split: option.splits)

lemma computeEdge_fee: "vFeeBps (computeEdge params sz) = int (feeBps params)"
  by (simp add: computeEdge_def Let_def)

lemma computeEdge_spread:
  "vSpreadBps (computeEdge params sz) = int (spreadBps params) + vImpactBps (computeEdge params sz)"
  by (simp add: computeEdge_def Let_def)

lemma computeEdge_total_nonneg: "0 \<le> vTotalEdgeBps (computeEdge params sz)"
  using computeEdge_impact_nonneg [of params sz]
  by (simp add: computeEdge_total computeEdge_fee computeEdge_spread Let_def)

text \<open>
  C7. In \<open>computeQuote\<close> the total edge is fee plus base spread plus impact, where the
  impact is \<open>floor(|notional| * impact_k / liquidity)\<close> when a trade size is given and
  the impact coefficient and the liquidity scale are both non-zero, and 0 otherwise; the
  sum is lowered to \<open>max_total_bps\<close> only when that ceiling is non-zero. The bid and
  the ask are computed from this total, and the returned numbers are its \<open>Number\<close>
  conversions.
\<close>

theorem total_edge_computation:
  "vFeeBps (computeEdge params sz) = int (feeBps params)
   \<and> vImpactBps (computeEdge params sz) =
       (case sz of
          None \<Rightarrow> 0
        | Some n \<Rightarrow>
            if impactKBps params \<noteq> 0 \<and> liquidityE6 params \<noteq> 0
            then \<lfloor>real_of_int (\<bar>n\<bar> * int (impactKBps params))
                  / real_of_int (int (liquidityE6 params))\<rfloor>
            else 0)
   \<and> vSpreadBps (computeEdge params sz)
       = int (spreadBps params) + vImpactBps (computeEdge params sz)
   \<and> vTotalEdgeBps (computeEdge params sz) =
       (if maxTotalBps params = 0
        then int (feeBps params) + int (spreadBps params) + vImpactBps (computeEdge params sz)
        else min (int (feeBps params) + int (spreadBps params)
                   + vImpactBps (computeEdge params sz))
                 (int (maxTotalBps params)))
   \<and> totalEdgeBps (computeQuote p params sz) = toNumber (vTotalEdgeBps (computeEdge params sz))
   \<and> impactBps (computeQuote p params sz) = toNumber (vImpactBps (computeEdge params sz))
   \<and> bid (computeQuote p params sz)
       = bigint_div (p * (10000 - vTotalEdgeBps (computeEdge params sz))) 10000
   \<and> ask (computeQuote p params sz)
       = bigint_div (p * (10000 + vTotalEdgeBps (computeEdge params sz)) + 10000 - 1) 10000"
proof -
  have i: "vImpactBps (computeEdge params sz) =
       (case sz of
          None \<Rightarrow> 0
        | Some n \<Rightarrow>
            if impactKBps params \<noteq> 0 \<and> liquidityE6 params \<noteq> 0
            then \<lfloor>real_of_int (\<bar>n\<bar> * int (impactKBps params))
                  / real_of_int (int (liquidityE6 params))\<rfloor>
            else 0)"
    unfolding floor_real_div by (rule computeEdge_impact)
  have t: "vTotalEdgeBps (computeEdge params sz) =
       (if maxTotalBps params = 0
        then int (feeBps params) + int (spreadBps params) + vImpactBps (computeEdge params sz)
        else min (int (feeBps params) + int (spreadBps params)
                   + vImpactBps (computeEdge params sz))
                 (int (maxTotalBps params)))"
    by (simp add: computeEdge_total computeEdge_fee computeEdge_spread Let_def min_def)
  have q: "totalEdgeBps (computeQuote p params sz) = toNumber (vTotalEdgeBps (computeEdge params sz))"
    "impactBps (computeQuote p params sz) = toNumber (vImpactBps (computeEdge params sz))"
    "bid (computeQuote p params sz)
       = bigint_div (p * (10000 - vTotalEdgeBps (computeEdge params sz))) 10000"
    "ask (computeQuote p params sz)
       = bigint_div (p * (10000 + vTotalEdgeBps (computeEdge params sz)) + 10000 - 1) 10000"
    by (simp_all add: computeQuote_def Let_def BPS_DENOM_def)
  show ?thesis
    using i t q computeEdge_fee [of params sz] computeEdge_spread [of params sz]
    by (intro conjI)
qed

theorem total_edge_computation_witness:
  "vImpactBps (computeEdge \<lparr> mkind = 1, feeBps = 5, spreadBps = 50, maxTotalBps = 100,
                             impactKBps = 100, liquidityE6 = 1000000000000 \<rparr>
                (Some (- 3000000000000))) = 300
   \<and> vTotalEdgeBps (computeEdge \<lparr> mkind = 1, feeBps = 5, spreadBps = 50, maxTotalBps = 100,
                             impactKBps = 100, liquidityE6 = 1000000000000 \<rparr>
                (Some (- 3000000000000))) = 100
   \<and> vTotalEdgeBps (computeEdge \<lparr> mkind = 1, feeBps = 5, spreadBps = 50, maxTotalBps = 0,
                             impactKBps = 100, liquidityE6 = 1000000000000 \<rparr>
                (Some (- 3000000000000))) = 355
   \<and> vTotalEdgeBps (computeEdge \<lparr> mkind = 1, feeBps = 5, spreadBps = 50, maxTotalBps = 0,
                             impactKBps = 100, liquidityE6 = 0 \<rparr>
                (Some (- 3000000000000))) = 55"
  using total_edge_computation
          [of "\<lparr> mkind = 1, feeBps = 5, spreadBps = 50, maxTotalBps = 100,
                impactKBps = 100, liquidityE6 = 1000000000000 \<rparr>" "Some (- 3000000000000)" 0]
        total_edge_computation
          [of "\<lparr> mkind = 1, feeBps = 5, spreadBps = 50, maxTotalBps = 0,
                impactKBps = 100, liquidityE6 = 1000000000000 \<rparr>" "Some (- 3000000000000)" 0]
        total_edge_computation
          [of "\<lparr> mkind = 1, feeBps = 5, spreadBps = 50, maxTotalBps = 0,
                impactKBps = 100, liquidityE6 = 0 \<rparr>" "Some (- 3000000000000)" 0]
  by (simp add: floor_real_div)

text \<open>
  C3, as stated, fails: with an oracle price of 1 and a total edge of 19999 bps (no
  ceiling) the bid is 0, not \<open>floor(-9999 / 10000) = -1\<close>, and \<open>ask - bid = 3\<close> is below
  the unrounded spread \<open>3.9998\<close>.
\<close>

theorem quote_rounding_counterexample:
  "bid (computeQuote 1 \<lparr> mkind = 0, feeBps = 0, spreadBps = 19999, maxTotalBps = 0,
                          impactKBps = 0, liquidityE6 = 0 \<rparr> None)
     \<noteq> \<lfloor>real_of_int
          (1 * (10000 - vTotalEdgeBps
                   (computeEdge \<lparr> mkind = 0, feeBps = 0, spreadBps = 19999, maxTotalBps = 0,
                                   impactKBps = 0, liquidityE6 = 0 \<rparr> None)))
        / real_of_int 10000\<rfloor>
   \<and> real_of_int
        (ask (computeQuote 1 \<lparr> mkind = 0, feeBps = 0, spreadBps = 19999, maxTotalBps = 0,
                                impactKBps = 0, liquidityE6 = 0 \<rparr> None)
         - bid (computeQuote 1 \<lparr> mkind = 0, feeBps = 0, spreadBps = 19999, maxTotalBps = 0,
                                  impactKBps = 0, liquidityE6 = 0 \<rparr> None))
       < 2 * real_of_int 1
           * real_of_int
               (vTotalEdgeBps
                  (computeEdge \<lparr> mkind = 0, feeBps = 0, spreadBps = 19999, maxTotalBps = 0,
                                  impactKBps = 0, liquidityE6 = 0 \<rparr> None))
           / 10000"
proof -
  have e: "vTotalEdgeBps
             (computeEdge \<lparr> mkind = 0, feeBps = 0, spreadBps = 19999, maxTotalBps = 0,
                             impactKBps = 0, liquidityE6 = 0 \<rparr> None) = 19999"
    by (simp add: computeEdge_def Let_def)
  have q: "bid (computeQuote 1 \<lparr> mkind = 0, feeBps = 0, spreadBps = 19999, maxTotalBps = 0,
                                impactKBps = 0, liquidityE6 = 0 \<rparr> None) = 0"
          "ask (computeQuote 1 \<lparr> mkind = 0, feeBps = 0, spreadBps = 19999, maxTotalBps = 0,
                                impactKBps = 0, liquidityE6 = 0 \<rparr> None) = 3"
    by (simp_all add: computeQuote_def computeEdge_def bigint_div_def BPS_DENOM_def Let_def)
  have f: "\<lfloor>real_of_int (1 * (10000 - 19999)) / real_of_int 10000\<rfloor> = - 1"
    unfolding floor_real_div by simp
  show ?thesis unfolding e q f by simp
qed

text \<open>
  C3, amended. For every oracle price \<open>p \<ge> 0\<close> and every total edge \<open>e \<le> 10000\<close> bps
  the bid is \<open>floor(p * (10000 - e) / 10000)\<close>, the ask is
  \<open>ceil(p * (10000 + e) / 10000)\<close>, and \<open>ask - bid\<close> is at least the unrounded spread
  \<open>2 * p * e / 10000\<close>.
\<close>

theorem quote_rounding_asymmetry:
  assumes "0 \<le> p" and "vTotalEdgeBps (computeEdge params sz) = e" and "e \<le> 10000"
  shows "bid (computeQuote p params sz) = \<lfloor>real_of_int (p * (10000 - e)) / real_of_int 10000\<rfloor>
         \<and> ask (computeQuote p params sz) = \<lceil>real_of_int (p * (10000 + e)) / real_of_int 10000\<rceil>
         \<and> real_of_int (ask (computeQuote p params sz) - bid (computeQuote p params sz))
             \<ge> 2 * real_of_int p * real_of_int e / 10000"
proof -
  have e0: "0 \<le> e" using computeEdge_total_nonneg [of params sz] assms(2) by simp
  let ?X = "p * (10000 - e)" and ?Y = "p * (10000 + e)"
  have X0: "0 \<le> ?X" using assms(1,3) by simp
  have Y0: "0 \<le> ?Y" using assms(1) e0 by simp
  have b: "bid (computeQuote p params sz) = ?X div 10000"
    using X0 assms(2) by (simp add: computeQuote_def Let_def BPS_DENOM_def bigint_div_nonneg)
  have "ask (computeQuote p params sz) = (?Y + 9999) div 10000"
    using Y0 assms(2) by (simp add: computeQuote_def Let_def BPS_DENOM_def bigint_div_nonneg)
  then have a: "ask (computeQuote p params sz) = - ((- ?Y) div 10000)"
    by (simp only: ceil_div_10000)
  have bl: "(?X div 10000) * 10000 \<le> ?X"
    using div_mult_mod_eq [of ?X 10000] pos_mod_sign [of 10000 ?X] by linarith
  have "((- ?Y) div 10000) * 10000 \<le> - ?Y"
    using div_mult_mod_eq [of "- ?Y" 10000] pos_mod_sign [of 10000 "- ?Y"] by linarith
  then have au: "?Y \<le> (- ((- ?Y) div 10000)) * 10000" by linarith
  have "?Y - ?X = 2 * p * e" by (simp add: algebra_simps)
  then have "2 * p * e \<le> (- ((- ?Y) div 10000) - ?X div 10000) * 10000"
    using bl au by (simp add: algebra_simps)
  moreover define d where "d = - ((- ?Y) div 10000) - ?X div 10000"
  ultimately have "2 * p * e \<le> d * 10000" by simp
  then have "real_of_int (2 * p * e) \<le> real_of_int (d * 10000)"
    by (simp only: of_int_le_iff)
  then have "2 * real_of_int p * real_of_int e \<le> real_of_int d * 10000" by simp
  then have "2 * real_of_int p * real_of_int e / 10000 \<le> real_of_int d" by simp
  then have sp: "2 * real_of_int p * real_of_int e / 10000
                 \<le> real_of_int (- ((- ?Y) div 10000) - ?X div 10000)"
    by (simp only: d_def)
  show ?thesis
    unfolding floor_real_div ceiling_real_div using a b sp by simp
qed

theorem quote_rounding_asymmetry_witness:
  "bid (computeQuote 10000000 \<lparr> mkind = 0, feeBps = 0, spreadBps = 33, maxTotalBps = 0,
                                impactKBps = 0, liquidityE6 = 0 \<rparr> None) = 9967000
   \<and> ask (computeQuote 10000000 \<lparr> mkind = 0, feeBps = 0, spreadBps = 33, maxTotalBps = 0,
                                impactKBps = 0, liquidityE6 = 0 \<rparr> None) = 10033000
   \<and> bid (computeQuote 10000001 \<lparr> mkind = 0, feeBps = 0, spreadBps = 33, maxTotalBps = 0,
                                impactKBps = 0, liquidityE6 = 0 \<rparr> None) = 9967000
   \<and> ask (computeQuote 10000001 \<lparr> mkind = 0, feeBps = 0, spreadBps = 33, maxTotalBps = 0,
                                impactKBps = 0, liquidityE6 = 0 \<rparr> None) = 10033002"
proof -
  let ?P = "\<lparr> mkind = 0, feeBps = 0, spreadBps = 33, maxTotalBps = 0,
              impactKBps = 0, liquidityE6 = 0 \<rparr>"
  have e: "vTotalEdgeBps (computeEdge ?P None) = 33"
    by (simp add: computeEdge_def Let_def)
  from quote_rounding_asymmetry [of 10000000 ?P None 33, OF _ e]
       quote_rounding_asymmetry [of 10000001 ?P None 33, OF _ e]
  show ?thesis by (simp add: floor_real_div ceiling_real_div)
qed

text \<open>
  C10, as stated, fails in its note: with no ceiling and \<open>fee + spread = 10001\<close> the bid
  at an oracle price of 1 is 0, not negative.
\<close>

theorem quote_bracket_counterexample:
  "(0 :: int) \<le> 1
   \<and> maxTotalBps \<lparr> mkind = 0, feeBps = 1, spreadBps = 10000, maxTotalBps = 0,
                     impactKBps = 0, liquidityE6 = 0 \<rparr> = 0
   \<and> 10000 < vFeeBps (computeEdge \<lparr> mkind = 0, feeBps = 1, spreadBps = 10000,
                                      maxTotalBps = 0, impactKBps = 0, liquidityE6 = 0 \<rparr> None)
               + vSpreadBps (computeEdge \<lparr> mkind = 0, feeBps = 1, spreadBps = 10000,
                                      maxTotalBps = 0, impactKBps = 0, liquidityE6 = 0 \<rparr> None)
   \<and> \<not> bid (computeQuote 1 \<lparr> mkind = 0, feeBps = 1, spreadBps = 10000, maxTotalBps = 0,
                               impactKBps = 0, liquidityE6 = 0 \<rparr> None) < 0"
  by (simp add: computeQuote_def computeEdge_def bigint_div_def BPS_DENOM_def Let_def)

text \<open>
  C10, amended. For every oracle price \<open>p \<ge> 0\<close>, every parameter record and every
  optional trade size, \<open>bid \<le> p \<le> ask\<close>. The bid is not guaranteed non-negative: when
  \<open>max_total_bps\<close> is 0 and \<open>fee + spread + impact\<close> exceeds 10000, the bid is at most 0,
  and it is negative exactly when \<open>p * (fee + spread + impact - 10000) \<ge> 10000\<close>.
\<close>

theorem quote_brackets_oracle:
  assumes "0 \<le> p"
  shows "bid (computeQuote p params sz) \<le> p
         \<and> p \<le> ask (computeQuote p params sz)
         \<and> (maxTotalBps params = 0
              \<and> 10000 < int (feeBps params) + int (spreadBps params)
                           + vImpactBps (computeEdge params sz)
            \<longrightarrow> bid (computeQuote p params sz) \<le> 0
                \<and> (bid (computeQuote p params sz) < 0
                     \<longleftrightarrow> 10000 \<le> p * (int (feeBps params) + int (spreadBps params)
                                        + vImpactBps (computeEdge params sz) - 10000)))"
proof -
  define e where "e = vTotalEdgeBps (computeEdge params sz)"
  have e0: "0 \<le> e" unfolding e_def by (rule computeEdge_total_nonneg)
  let ?X = "p * (10000 - e)" and ?Y = "p * (10000 + e)"
  have b: "bid (computeQuote p params sz) = bigint_div ?X 10000"
    by (simp add: computeQuote_def Let_def BPS_DENOM_def e_def)
  have Y0: "0 \<le> ?Y" using assms e0 by simp
  then have a: "ask (computeQuote p params sz) = (?Y + 9999) div 10000"
    by (simp add: computeQuote_def Let_def BPS_DENOM_def e_def bigint_div_nonneg)
  have pe: "0 \<le> p * e" using assms e0 by simp
  have Xle: "?X \<le> p * 10000" using pe by (simp add: algebra_simps)
  have Yge: "p * 10000 \<le> ?Y" using pe by (simp add: algebra_simps)
  have bid_le: "bigint_div ?X 10000 \<le> p"
  proof (cases "0 \<le> ?X")
    case True
    have "?X div 10000 \<le> (p * 10000) div 10000" using Xle by (rule zdiv_mono1) simp
    then show ?thesis using True by (simp add: bigint_div_nonneg)
  next
    case False
    then have "bigint_div ?X 10000 = - ((- ?X) div 10000)" by (simp add: bigint_div_neg)
    moreover have "0 \<le> (- ?X) div 10000" using False by (simp add: pos_imp_zdiv_nonneg_iff)
    ultimately show ?thesis using assms by simp
  qed
  have ask_ge: "p \<le> (?Y + 9999) div 10000"
  proof -
    have "(p * 10000) div 10000 \<le> (?Y + 9999) div 10000"
      using Yge by (intro zdiv_mono1) simp_all
    then show ?thesis by simp
  qed
  have neg: "bigint_div ?X 10000 \<le> 0
             \<and> (bigint_div ?X 10000 < 0
                  \<longleftrightarrow> 10000 \<le> p * (int (feeBps params) + int (spreadBps params)
                                     + vImpactBps (computeEdge params sz) - 10000))"
    if h: "maxTotalBps params = 0
           \<and> 10000 < int (feeBps params) + int (spreadBps params)
                        + vImpactBps (computeEdge params sz)"
  proof -
    define s where "s = int (feeBps params) + int (spreadBps params)
                        + vImpactBps (computeEdge params sz)"
    have es: "e = s"
      using h by (simp add: e_def s_def computeEdge_total computeEdge_fee computeEdge_spread Let_def)
    have X: "?X = - (p * (s - 10000))" by (simp add: es algebra_simps)
    have n0: "0 \<le> p * (s - 10000)" using assms h by (simp add: s_def)
    show ?thesis
    proof (cases "p * (s - 10000) = 0")
      case True
      have "bigint_div (- (p * (s - 10000))) 10000 = 0"
        unfolding True by (simp add: bigint_div_def)
      moreover have "\<not> 10000 \<le> p * (s - 10000)" unfolding True by simp
      ultimately show ?thesis unfolding X s_def [symmetric] by simp
    next
      case False
      then have "- (p * (s - 10000)) < 0" using n0 by linarith
      then have "bigint_div (- (p * (s - 10000))) 10000 = - ((p * (s - 10000)) div 10000)"
        by (simp add: bigint_div_neg)
      moreover have "0 \<le> (p * (s - 10000)) div 10000"
        using n0 by (simp add: pos_imp_zdiv_nonneg_iff)
      moreover have "0 < (p * (s - 10000)) div 10000 \<longleftrightarrow> 10000 \<le> p * (s - 10000)"
        by (simp add: pos_imp_zdiv_pos_iff)
      ultimately show ?thesis unfolding X s_def [symmetric] by simp
    qed
  qed
  show ?thesis unfolding a b using bid_le ask_ge neg by blast
qed

theorem quote_brackets_oracle_witness:
  "bid (computeQuote 10000 \<lparr> mkind = 0, feeBps = 0, spreadBps = 20000, maxTotalBps = 0,
                             impactKBps = 0, liquidityE6 = 0 \<rparr> None) = - 10000
   \<and> ask (computeQuote 10000 \<lparr> mkind = 0, feeBps = 0, spreadBps = 20000, maxTotalBps = 0,
                             impactKBps = 0, liquidityE6 = 0 \<rparr> None) = 30000
   \<and> bid (computeQuote 10000 \<lparr> mkind = 0, feeBps = 0, spreadBps = 20000, maxTotalBps = 0,
                             impactKBps = 0, liquidityE6 = 0 \<rparr> None) \<le> 10000
   \<and> 10000 \<le> ask (computeQuote 10000 \<lparr> mkind = 0, feeBps = 0, spreadBps = 20000,
                             maxTotalBps = 0, impactKBps = 0, liquidityE6 = 0 \<rparr> None)
   \<and> bid (computeQuote 10000 \<lparr> mkind = 0, feeBps = 0, spreadBps = 20000, maxTotalBps = 0,
                             impactKBps = 0, liquidityE6 = 0 \<rparr> None) < 0"
proof -
  let ?P = "\<lparr> mkind = 0, feeBps = 0, spreadBps = 20000, maxTotalBps = 0,
              impactKBps = 0, liquidityE6 = 0 \<rparr>"
  have v: "bid (computeQuote 10000 ?P None) = - 10000" "ask (computeQuote 10000 ?P None) = 30000"
    by (simp_all add: computeQuote_def computeEdge_def bigint_div_def BPS_DENOM_def Let_def)
  have i: "vImpactBps (computeEdge ?P None) = 0" by (simp add: computeEdge_def Let_def)
  from quote_brackets_oracle [of 10000 ?P None] i v
  show ?thesis by simp
qed

section \<open>The quote list of the best-price scanner\<close>

lemma fetchMatcherParams_None_iff:
  "fetchMatcherParams info = None \<longleftrightarrow> ctx_unreadable info"
proof (cases info)
  case None
  then show ?thesis by (simp add: fetchMatcherParams_def ctx_unreadable_def)
next
  case (Some data)
  show ?thesis
  proof (cases "int (length data) < 144")
    case True
    then show ?thesis using Some
      by (simp add: fetchMatcherParams_def ctx_unreadable_def CTX_BASE_def)
  next
    case False
    then have len: "144 \<le> int (length data)" by simp
    have r: "readBigUInt64LE data 64 = Inr (u64_at data 64)"
            "readBigUInt64LE data 128 = Inr (u64_at data 128)"
            "readBigUInt64LE data 136 = Inr (u64_at data 136)"
            "readUInt8 data 76 = Inr (le_bytes (take 1 (drop 76 data)))"
            "readUInt32LE data 112 = Inr (le_bytes (take 4 (drop 112 data)))"
            "readUInt32LE data 116 = Inr (le_bytes (take 4 (drop 116 data)))"
            "readUInt32LE data 120 = Inr (le_bytes (take 4 (drop 120 data)))"
            "readUInt32LE data 124 = Inr (le_bytes (take 4 (drop 124 data)))"
      using len by (simp_all add: readBigUInt64LE_ok readUInt8_ok readUInt32LE_ok)
    show ?thesis using Some False r
      by (simp add: fetchMatcherParams_def ctx_unreadable_def CTX_BASE_def)
  qed
qed

lemma kindLabel_not_fallback: "kindLabel k \<noteq> fallbackLabel"
  by (simp add: kindLabel_def fallbackLabel_def)

lemma fallback_edge:
  "computeEdge fallbackParams None =
     \<lparr> vFeeBps = 0, vSpreadBps = 50, vImpactBps = 0, vTotalEdgeBps = 50 \<rparr>"
  by (simp add: computeEdge_def fallbackParams_def Let_def)

lemma fallback_quote:
  "computeQuote p fallbackParams None =
     \<lparr> bid = bigint_div (p * 9950) 10000, ask = bigint_div (p * 10050 + 9999) 10000,
       totalEdgeBps = Num 50, qFeeBps = Num 0, qSpreadBps = Num 50, impactBps = Num 0 \<rparr>"
proof -
  have e: "computeQuote p fallbackParams None =
     \<lparr> bid = bigint_div (p * (10000 - 50)) 10000,
       ask = bigint_div (p * (10000 + 50) + 10000 - 1) 10000,
       totalEdgeBps = toNumber 50, qFeeBps = toNumber 0, qSpreadBps = toNumber 50,
       impactBps = toNumber 0 \<rparr>"
    by (simp only: computeQuote_def fallback_edge Let_def BPS_DENOM_def EdgeVars.simps)
  have a: "p * (10000 - 50) = p * 9950" "p * (10000 + 50) + 10000 - 1 = p * 10050 + 9999"
    by simp_all
  have n: "toNumber 50 = Num 50" "toNumber 0 = Num 0"
    by (simp_all add: toNumber_small)
  show ?thesis unfolding e a n ..
qed

lemma buildQuotes_map:
  "buildQuotes conn p sz lps = map (\<lambda>lp. buildQuote p sz lp (ctxFetch conn lp)) lps"
  by (induction lps) (simp_all add: buildQuotes_def Let_def)

lemma ctxFetch_None_iff:
  "ctxFetch conn lp = None \<longleftrightarrow>
     matcherContext (lpAccount lp) = defaultPublicKey
     \<or> ctx_unreadable (conn (matcherContext (lpAccount lp)))"
  by (simp add: ctxFetch_def fetchMatcherParams_None_iff)

text \<open>
  C9. The scanner builds one quote per LP, in order, none left out. An LP whose matcher
  context is missing, too short or fails the magic check (or whose context key is the
  default key) is quoted from the fixed fallback parameters (passive, no fee, 50 bps
  spread, no ceiling, no impact) and carries the label \<open>unknown (fallback 50bps)\<close>; an
  LP whose context is read is quoted from its own parameters and never carries that
  label. The failure to read is never an error of the scanner.
\<close>

theorem aggregator_fallback:
  "length (buildQuotes conn p sz lps) = length lps
   \<and> (\<forall>i < length lps.
         lpIndex (buildQuotes conn p sz lps ! i) = lpIdx (lps ! i)
         \<and> (matcherContext (lpAccount (lps ! i)) = defaultPublicKey
              \<or> ctx_unreadable (conn (matcherContext (lpAccount (lps ! i))))
            \<longrightarrow> matcherKind (buildQuotes conn p sz lps ! i) = ''unknown (fallback 50bps)''
                \<and> lqBid (buildQuotes conn p sz lps ! i)
                    = bid (computeQuote p \<lparr> mkind = 0, feeBps = 0, spreadBps = 50,
                             maxTotalBps = 0, impactKBps = 0, liquidityE6 = 0 \<rparr> None)
                \<and> lqAsk (buildQuotes conn p sz lps ! i)
                    = ask (computeQuote p \<lparr> mkind = 0, feeBps = 0, spreadBps = 50,
                             maxTotalBps = 0, impactKBps = 0, liquidityE6 = 0 \<rparr> None)
                \<and> lqBid (buildQuotes conn p sz lps ! i) = bigint_div (p * 9950) 10000
                \<and> lqAsk (buildQuotes conn p sz lps ! i) = bigint_div (p * 10050 + 9999) 10000
                \<and> lqTotalEdgeBps (buildQuotes conn p sz lps ! i) = Num 50
                \<and> lqFeeBps (buildQuotes conn p sz lps ! i) = Num 0
                \<and> lqSpreadBps (buildQuotes conn p sz lps ! i) = Num 50
                \<and> lqImpactBps (buildQuotes conn p sz lps ! i) = Num 0)
         \<and> (\<not> (matcherContext (lpAccount (lps ! i)) = defaultPublicKey
                 \<or> ctx_unreadable (conn (matcherContext (lpAccount (lps ! i)))))
            \<longrightarrow> matcherKind (buildQuotes conn p sz lps ! i) \<noteq> ''unknown (fallback 50bps)''
                \<and> (\<exists>params.
                       fetchMatcherParams (conn (matcherContext (lpAccount (lps ! i))))
                         = Some params
                       \<and> matcherKind (buildQuotes conn p sz lps ! i) = kindLabel (mkind params)
                       \<and> lqBid (buildQuotes conn p sz lps ! i)
                           = bid (computeQuote p params sz)
                       \<and> lqAsk (buildQuotes conn p sz lps ! i)
                           = ask (computeQuote p params sz))))"
  (is "?L \<and> (\<forall>i. i < _ \<longrightarrow> ?X i)")
proof (rule conjI)
  show ?L by (simp add: buildQuotes_map)
next
  have "?X i" if i: "i < length lps" for i
  proof -
    let ?lp = "lps ! i"
    let ?q = "buildQuotes conn p sz lps ! i"
    have q: "?q = buildQuote p sz ?lp (ctxFetch conn ?lp)"
      using i by (simp add: buildQuotes_map)
    have c1: "lpIndex ?q = lpIdx ?lp"
      unfolding q by (simp add: buildQuote_def Let_def split: option.splits prod.splits)
    have fq: "computeQuote p \<lparr> mkind = 0, feeBps = 0, spreadBps = 50,
                             maxTotalBps = 0, impactKBps = 0, liquidityE6 = 0 \<rparr> None
              = computeQuote p fallbackParams None"
      by (simp add: fallbackParams_def)
    have c2: "matcherKind ?q = ''unknown (fallback 50bps)''
          \<and> lqBid ?q = bid (computeQuote p \<lparr> mkind = 0, feeBps = 0, spreadBps = 50,
                             maxTotalBps = 0, impactKBps = 0, liquidityE6 = 0 \<rparr> None)
          \<and> lqAsk ?q = ask (computeQuote p \<lparr> mkind = 0, feeBps = 0, spreadBps = 50,
                             maxTotalBps = 0, impactKBps = 0, liquidityE6 = 0 \<rparr> None)
          \<and> lqBid ?q = bigint_div (p * 9950) 10000
          \<and> lqAsk ?q = bigint_div (p * 10050 + 9999) 10000
          \<and> lqTotalEdgeBps ?q = Num 50
          \<and> lqFeeBps ?q = Num 0
          \<and> lqSpreadBps ?q = Num 50
          \<and> lqImpactBps ?q = Num 0"
      if "matcherContext (lpAccount ?lp) = defaultPublicKey
            \<or> ctx_unreadable (conn (matcherContext (lpAccount ?lp)))"
    proof -
      from that have n: "ctxFetch conn ?lp = None" by (simp add: ctxFetch_None_iff)
      show ?thesis
        unfolding q n fq
        by (simp add: buildQuote_def fallback_quote fallbackLabel_def)
    qed
    have c3: "matcherKind ?q \<noteq> ''unknown (fallback 50bps)''
               \<and> (\<exists>params.
                      fetchMatcherParams (conn (matcherContext (lpAccount ?lp))) = Some params
                      \<and> matcherKind ?q = kindLabel (mkind params)
                      \<and> lqBid ?q = bid (computeQuote p params sz)
                      \<and> lqAsk ?q = ask (computeQuote p params sz))"
      if "\<not> (matcherContext (lpAccount ?lp) = defaultPublicKey
               \<or> ctx_unreadable (conn (matcherContext (lpAccount ?lp))))"
    proof -
      from that have nd: "matcherContext (lpAccount ?lp) \<noteq> defaultPublicKey"
        and "ctxFetch conn ?lp \<noteq> None"
        by (simp_all add: ctxFetch_None_iff)
      then obtain params where s: "ctxFetch conn ?lp = Some params" by auto
      then have f: "fetchMatcherParams (conn (matcherContext (lpAccount ?lp))) = Some params"
        using nd by (simp add: ctxFetch_def)
      have "matcherKind ?q = kindLabel (mkind params)"
           "lqBid ?q = bid (computeQuote p params sz)"
           "lqAsk ?q = ask (computeQuote p params sz)"
        unfolding q s by (simp_all add: buildQuote_def)
      then show ?thesis
        using f kindLabel_not_fallback [of "mkind params"] by (simp add: fallbackLabel_def)
    qed
    show ?thesis using c1 c2 c3 by blast
  qed
  then show "\<forall>i. i < length lps \<longrightarrow> ?X i" by blast
qed

theorem aggregator_fallback_witness:
  "\<exists>qs. buildQuotes (\<lambda>k. if k = replicate 32 1 then Some [] else None) 10000000 None
          [\<lparr> lpIdx = 7,
             lpAccount = \<lparr> kind = LP, accountId = 1, capital = 5, pnl = 0, reservedPnl = 0,
               warmupStartedAtSlot = 0, warmupSlopePerStep = 0, positionSize = 0,
               entryPrice = 0, fundingIndex = 0, matcherProgram = replicate 32 2,
               matcherContext = replicate 32 1, owner = replicate 32 3, feeCredits = 0,
               lastFeeSlot = 0 \<rparr> \<rparr>] = qs
     \<and> length qs = 1
     \<and> lpIndex (qs ! 0) = 7
     \<and> matcherKind (qs ! 0) = ''unknown (fallback 50bps)''
     \<and> lqBid (qs ! 0) = 9950000
     \<and> lqAsk (qs ! 0) = 10050000
     \<and> lqTotalEdgeBps (qs ! 0) = Num 50
     \<and> lqFeeBps (qs ! 0) = Num 0
     \<and> lqSpreadBps (qs ! 0) = Num 50"
proof -
  let ?conn = "\<lambda>k :: PublicKey. if k = replicate 32 1 then Some ([] :: buffer) else None"
  let ?lps = "[\<lparr> lpIdx = 7,
             lpAccount = \<lparr> kind = LP, accountId = 1, capital = 5, pnl = 0, reservedPnl = 0,
               warmupStartedAtSlot = 0, warmupSlopePerStep = 0, positionSize = 0,
               entryPrice = 0, fundingIndex = 0, matcherProgram = replicate 32 2,
               matcherContext = replicate 32 1, owner = replicate 32 3, feeCredits = 0,
               lastFeeSlot = 0 \<rparr> \<rparr>]"
  have u: "ctx_unreadable (?conn (matcherContext (lpAccount (?lps ! 0))))"
    by (simp add: ctx_unreadable_def CTX_BASE_def)
  have l: "(0 :: nat) < length ?lps" by simp
  note t = aggregator_fallback [of ?conn 10000000 None ?lps]
  note t1 = conjunct1 [OF t]
  note t2 = conjunct2 [OF t, rule_format, OF l]
  note f = conjunct1 [OF conjunct2 [OF t2], rule_format, OF disjI2, OF u]
  have b: "bigint_div (10000000 * 9950) 10000 = 9950000"
          "bigint_div (10000000 * 10050 + 9999) 10000 = 10050000"
    by (simp_all add: bigint_div_def)
  show ?thesis
    using t1 conjunct1 [OF t2] f b by simp
qed

section \<open>The credibility-weighted spread\<close>


lemma no_spread_within_zero_ceiling:
  "max_spread_bps c = 0 \<Longrightarrow> \<not> (1 \<le> s \<and> s \<le> int (max_spread_bps c))"
  by simp




end
